theory Spec2Isabelle
  imports Complex_Main
begin

section \<open>JavaScript values used by the resilience layer\<close>

text \<open>
  The embedding covers \<^verbatim>\<open>utils/httpClient.ts\<close>, \<^verbatim>\<open>utils/proxyClient.ts\<close>,
  \<^verbatim>\<open>config/serviceRegistry.ts\<close>, \<^verbatim>\<open>services/cacheService.ts\<close> (the breaker-enabled
  class) and the two Redis-backed rate-limit middlewares. Promises are run to completion
  one call at a time: an \<^verbatim>\<open>async\<close> function is a state transformer returning
  \<open>error + value\<close>, a rejection being \<open>Inl\<close>. Wall-clock behaviour (back-off delays,
  the axios and breaker invocation timeouts, the breaker's reset timer, the expiry of its
  rolling window) is not part of the model; a transport attempt that times out is the
  transport outcome \<open>NoReply\<close>.
\<close>

datatype json =
    JNull
  | JBool bool
  | JNum int
  | JStr string
  | JArr "json list"
  | JObj "(string \<times> json) list"

text \<open>
  \<^verbatim>\<open>String(n)\<close> and template interpolation of a non-negative integer. The index into
  the digits is always below ten.
\<close>

definition digit_char :: "nat \<Rightarrow> char" where
  "digit_char d = ''0123456789'' ! d"

fun String_nat :: "nat \<Rightarrow> string" where
  "String_nat n =
     (if n < 10 then [digit_char n] else String_nat (n div 10) @ [digit_char (n mod 10)])"

declare String_nat.simps [simp del]

text \<open>JavaScript truthiness of an optional string: \<^verbatim>\<open>undefined\<close> and \<^verbatim>\<open>''\<close> are falsy.\<close>

fun truthy :: "string option \<Rightarrow> string option" where
  "truthy None = None"
| "truthy (Some s) = (if s = [] then None else Some s)"

record response =
  status :: nat
  body :: json

record js_error =
  message :: string
  code :: "string option"
  err_response :: "response option"
  isCircuitOpen :: bool

definition Error :: "string \<Rightarrow> js_error" where
  "Error m = \<lparr>message = m, code = None, err_response = None, isCircuitOpen = False\<rparr>"

datatype level = Debug | Info | Warn | Err

type_synonym log_line = "level \<times> string"

section \<open>The transport and axios\<close>

text \<open>
  \<^verbatim>\<open>HttpRequestOptions\<close> extends \<^verbatim>\<open>AxiosRequestConfig\<close>; the fields the code reads or
  that decide where axios sends the request are kept.
\<close>

record http_opts =
  serviceName :: "string option"
  url :: "string option"
  baseURL :: "string option"
  http_method :: "string option"
  timeout :: "nat option"
  payload :: "json option"

text \<open>
  What the remote end does with one transport invocation: it replies with a status and a
  body, or no reply arrives (connection refused, reset, timed out). A test's mocked
  transport is the same thing: a queue of outcomes for the next invocations and the
  outcome used once the queue is empty.
\<close>

datatype outcome = Reply response | NoReply string

record axios_instance =
  inst_baseURL :: "string option"
  inst_timeout :: nat
  validateStatus :: "nat \<Rightarrow> bool"

record sent_request =
  to_baseURL :: "string option"
  to_url :: "string option"
  with_method :: "string option"
  with_timeout :: nat

datatype circuit = CLOSED | OPEN | HALF_OPEN

record breaker =
  ident :: nat
  circuit_state :: circuit
  fires :: nat
  failures :: nat

record world =
  hostAxiosInstances :: "string \<rightharpoonup> axios_instance"
  hostBreakers :: "string \<rightharpoonup> breaker"
  proxy_axiosInstances :: "string \<rightharpoonup> axios_instance"
  proxy_breakers :: "string \<rightharpoonup> breaker"
  next_ident :: nat
  queue :: "outcome list"
  otherwise :: outcome
  sent :: "sent_request list"
  logs :: "log_line list"

definition logger :: "level \<Rightarrow> string \<Rightarrow> world \<Rightarrow> world" where
  "logger l m s = s\<lparr>logs := logs s @ [(l, m)]\<rparr>"

text \<open>One transport invocation: the request is recorded and the next outcome is taken.\<close>

definition transport :: "sent_request \<Rightarrow> world \<Rightarrow> outcome \<times> world" where
  "transport rq s =
     (case queue s of
        [] \<Rightarrow> (otherwise s, s\<lparr>sent := sent s @ [rq]\<rparr>)
      | out # rest \<Rightarrow> (out, s\<lparr>queue := rest, sent := sent s @ [rq]\<rparr>))"

text \<open>
  axios is a dependency and not part of the sources. Its \<^verbatim>\<open>request\<close> is modelled as
  documented: the request configuration is merged over the instance defaults, the
  transport is invoked once, a missing reply rejects, and a reply whose status fails
  \<^verbatim>\<open>validateStatus\<close> rejects with an error that carries the response. The default
  instance \<^verbatim>\<open>axios\<close> accepts exactly the 2xx statuses; the instances created by the two
  clients are configured with \<^verbatim>\<open>validateStatus: () => true\<close>.
\<close>

definition axios_default :: axios_instance where
  "axios_default =
     \<lparr>inst_baseURL = None, inst_timeout = 0,
      validateStatus = (\<lambda>st. 200 \<le> st \<and> st < 300)\<rparr>"

definition merge_config :: "axios_instance \<Rightarrow> http_opts \<Rightarrow> sent_request" where
  "merge_config inst opts =
     \<lparr>to_baseURL = (case baseURL opts of Some b \<Rightarrow> Some b | None \<Rightarrow> inst_baseURL inst),
      to_url = url opts,
      with_method = http_method opts,
      with_timeout = (case timeout opts of Some t \<Rightarrow> t | None \<Rightarrow> inst_timeout inst)\<rparr>"

definition status_error_code :: "nat \<Rightarrow> string option" where
  "status_error_code st =
     (if 400 \<le> st \<and> st < 500 then Some ''ERR_BAD_REQUEST''
      else if 500 \<le> st \<and> st < 600 then Some ''ERR_BAD_RESPONSE''
      else None)"

definition axios_request ::
  "axios_instance \<Rightarrow> http_opts \<Rightarrow> world \<Rightarrow> (js_error + response) \<times> world" where
  "axios_request inst opts s =
     (case transport (merge_config inst opts) s of
        (NoReply m, s') \<Rightarrow> (Inl ((Error m)\<lparr>code := Some ''ERR_NETWORK''\<rparr>), s')
      | (Reply r, s') \<Rightarrow>
          if validateStatus inst (status r) then (Inr r, s')
          else (Inl ((Error (''Request failed with status code '' @ String_nat (status r)))
                       \<lparr>code := status_error_code (status r), err_response := Some r\<rparr>), s'))"

section \<open>p-retry and the circuit breaker\<close>

text \<open>
  Modelled from the spec: \<^verbatim>\<open>p-retry\<close> is a dependency, not under the sources. The
  attempt is run; when it throws, \<^verbatim>\<open>onFailedAttempt\<close> is called and the attempt is run
  again while retries are left; the error of the last attempt propagates. (Section 4.1:
  a bounded number of additional attempts after the first.)
\<close>

fun pRetry ::
  "nat \<Rightarrow> (js_error \<Rightarrow> world \<Rightarrow> world) \<Rightarrow> (world \<Rightarrow> (js_error + 'a) \<times> world)
     \<Rightarrow> world \<Rightarrow> (js_error + 'a) \<times> world" where
  "pRetry 0 onFailedAttempt attempt s =
     (case attempt s of
        (Inr r, s') \<Rightarrow> (Inr r, s')
      | (Inl e, s') \<Rightarrow> (Inl e, onFailedAttempt e s'))"
| "pRetry (Suc retries) onFailedAttempt attempt s =
     (case attempt s of
        (Inr r, s') \<Rightarrow> (Inr r, s')
      | (Inl e, s') \<Rightarrow> pRetry retries onFailedAttempt attempt (onFailedAttempt e s'))"

text \<open>
  Modelled from the spec: \<^verbatim>\<open>opossum\<close>'s \<^verbatim>\<open>CircuitBreaker\<close> is a dependency, not under
  the sources. Section 4.1 gives its state machine: closed lets every call through and
  opens when the failure percentage of the window exceeds the threshold; open rejects
  without invoking the action, with the code \<^verbatim>\<open>EOPENBREAKER\<close>; half-open lets a trial call
  through, a success closes the breaker and resets the window, a failure opens it again.
  The move from open to half-open is made by a timer, not by a call. Every call counts
  as a fire. \<open>ident\<close> is the identity of the JavaScript object.
\<close>

datatype event = Reject | Success | Failure js_error | Opened | Closed

definition new_CircuitBreaker :: "nat \<Rightarrow> breaker" where
  "new_CircuitBreaker i = \<lparr>ident = i, circuit_state = CLOSED, fires = 0, failures = 0\<rparr>"

definition EOPENBREAKER :: js_error where
  "EOPENBREAKER = (Error ''Breaker is open'')\<lparr>code := Some ''EOPENBREAKER''\<rparr>"

definition fire ::
  "nat \<Rightarrow> breaker \<Rightarrow> ('s \<Rightarrow> (js_error + 'a) \<times> 's) \<Rightarrow> 's
     \<Rightarrow> (js_error + 'a) \<times> breaker \<times> event list \<times> 's" where
  "fire errorThresholdPercentage b action s =
     (let b0 = b\<lparr>fires := fires b + 1\<rparr> in
      if circuit_state b = OPEN then (Inl EOPENBREAKER, b0, [Reject], s)
      else
        (case action s of
           (Inr r, s') \<Rightarrow>
             if circuit_state b = HALF_OPEN
             then (Inr r, b0\<lparr>circuit_state := CLOSED, fires := 0, failures := 0\<rparr>,
                   [Success, Closed], s')
             else (Inr r, b0, [Success], s')
         | (Inl e, s') \<Rightarrow>
             (let b1 = b0\<lparr>failures := failures b0 + 1\<rparr> in
              if circuit_state b = HALF_OPEN
                 \<or> errorThresholdPercentage * fires b1 < 100 * failures b1
              then (Inl e, b1\<lparr>circuit_state := OPEN\<rparr>, [Failure e, Opened], s')
              else (Inl e, b1, [Failure e], s'))))"

section \<open>utils/httpClient.ts and utils/proxyClient.ts\<close>

text \<open>
  The values read from \<^verbatim>\<open>process.env\<close> when the module is loaded, the platform's
  \<^verbatim>\<open>new URL(url).origin\<close> (\<open>None\<close> when the constructor throws) and the table of
  \<^verbatim>\<open>config/serviceRegistry.ts\<close>.
\<close>

record config =
  DEFAULT_TIMEOUT :: nat
  DEFAULT_RETRIES :: nat
  HTTP_BREAKER_ERROR_THRESHOLD_PCT :: nat
  URL_origin :: "string \<Rightarrow> string option"
  serviceRegistry :: "string \<rightharpoonup> string"

definition getServiceUrl :: "config \<Rightarrow> string \<Rightarrow> string option" where
  "getServiceUrl cfg name = serviceRegistry cfg name"

definition getOriginFromUrl :: "config \<Rightarrow> string \<Rightarrow> string" where
  "getOriginFromUrl cfg u = (case URL_origin cfg u of Some origin \<Rightarrow> origin | None \<Rightarrow> [])"

definition getAxiosForHost :: "config \<Rightarrow> string \<Rightarrow> world \<Rightarrow> axios_instance \<times> world" where
  "getAxiosForHost cfg origin s =
     (case hostAxiosInstances s origin of
        None \<Rightarrow>
          (let instance = \<lparr>inst_baseURL = Some origin, inst_timeout = DEFAULT_TIMEOUT cfg,
                            validateStatus = (\<lambda>_. True)\<rparr>
           in (instance, s\<lparr>hostAxiosInstances := (hostAxiosInstances s)(origin \<mapsto> instance)\<rparr>))
      | Some instance \<Rightarrow> (instance, s))"

definition HTTP_error :: "response \<Rightarrow> js_error" where
  "HTTP_error resp = Error (''HTTP '' @ String_nat (status resp))"

definition host_attempt ::
  "axios_instance \<Rightarrow> http_opts \<Rightarrow> world \<Rightarrow> (js_error + response) \<times> world" where
  "host_attempt inst cfg_req s =
     (case axios_request inst cfg_req s of
        (Inl e, s') \<Rightarrow> (Inl e, s')
      | (Inr resp, s') \<Rightarrow>
          if 500 \<le> status resp then (Inl ((HTTP_error resp)\<lparr>err_response := Some resp\<rparr>), s')
          else (Inr resp, s'))"

definition host_action ::
  "config \<Rightarrow> string \<Rightarrow> http_opts \<Rightarrow> world \<Rightarrow> (js_error + response) \<times> world" where
  "host_action cfg origin cfg_req s =
     (let (inst, s1) = getAxiosForHost cfg origin s
      in pRetry (DEFAULT_RETRIES cfg) (\<lambda>e. logger Debug ''HTTP attempt failed for host'')
           (host_attempt inst cfg_req) s1)"

fun host_listener :: "event \<Rightarrow> world \<Rightarrow> world" where
  "host_listener Opened s = logger Warn ''HTTP breaker open'' s"
| "host_listener Closed s = logger Info ''HTTP breaker closed'' s"
| "host_listener (Failure e) s = logger Warn ''HTTP breaker failure'' s"
| "host_listener _ s = s"

definition getBreakerForHost :: "config \<Rightarrow> string \<Rightarrow> world \<Rightarrow> breaker \<times> world" where
  "getBreakerForHost cfg origin s =
     (case hostBreakers s origin of
        None \<Rightarrow>
          (let b = new_CircuitBreaker (next_ident s)
           in (b, s\<lparr>hostBreakers := (hostBreakers s)(origin \<mapsto> b),
                     next_ident := Suc (next_ident s)\<rparr>))
      | Some b \<Rightarrow> (b, s))"

text \<open>The \<^verbatim>\<open>ProxyClient\<close> singleton is built with no options: its defaults apply.\<close>

definition proxy_timeoutMs :: nat where "proxy_timeoutMs = 10000"
definition proxy_maxRetries :: nat where "proxy_maxRetries = 2"
definition proxy_errorThresholdPercentage :: nat where "proxy_errorThresholdPercentage = 50"

definition proxy_getAxiosInstance ::
  "config \<Rightarrow> string \<Rightarrow> world \<Rightarrow> axios_instance \<times> world" where
  "proxy_getAxiosInstance cfg service s =
     (case proxy_axiosInstances s service of
        Some instance \<Rightarrow> (instance, s)
      | None \<Rightarrow>
          (let instance = \<lparr>inst_baseURL = getServiceUrl cfg service,
                            inst_timeout = proxy_timeoutMs, validateStatus = (\<lambda>_. True)\<rparr>
           in (instance,
               s\<lparr>proxy_axiosInstances := (proxy_axiosInstances s)(service \<mapsto> instance)\<rparr>)))"

definition proxy_attempt ::
  "axios_instance \<Rightarrow> http_opts \<Rightarrow> world \<Rightarrow> (js_error + response) \<times> world" where
  "proxy_attempt inst cfg_req s =
     (case axios_request inst cfg_req s of
        (Inl e, s') \<Rightarrow> (Inl e, logger Warn ''axios network error, will be retried'' s')
      | (Inr resp, s') \<Rightarrow>
          if 500 \<le> status resp
          then (Inl ((HTTP_error resp)\<lparr>err_response := Some resp\<rparr>),
                logger Warn ''axios received 5xx, will be retried'' s')
          else (Inr resp, s'))"

definition proxy_action ::
  "config \<Rightarrow> string \<Rightarrow> http_opts \<Rightarrow> world \<Rightarrow> (js_error + response) \<times> world" where
  "proxy_action cfg service cfg_req s =
     (let (inst, s1) = proxy_getAxiosInstance cfg service s
      in pRetry proxy_maxRetries (\<lambda>e. logger Debug ''Request attempt failed'')
           (proxy_attempt inst cfg_req) s1)"

fun proxy_listener :: "event \<Rightarrow> world \<Rightarrow> world" where
  "proxy_listener Opened s = logger Warn ''circuit open'' s"
| "proxy_listener Closed s = logger Info ''circuit closed'' s"
| "proxy_listener (Failure e) s = logger Warn ''circuit failure'' s"
| "proxy_listener _ s = s"

definition proxy_getBreaker :: "string \<Rightarrow> world \<Rightarrow> breaker \<times> world" where
  "proxy_getBreaker service s =
     (case proxy_breakers s service of
        Some b \<Rightarrow> (b, s)
      | None \<Rightarrow>
          (let b = new_CircuitBreaker (next_ident s)
           in (b, s\<lparr>proxy_breakers := (proxy_breakers s)(service \<mapsto> b),
                     next_ident := Suc (next_ident s)\<rparr>)))"

definition circuit_open_error :: "string \<Rightarrow> js_error" where
  "circuit_open_error m = (Error m)\<lparr>isCircuitOpen := True\<rparr>"

definition proxy_request ::
  "config \<Rightarrow> string \<Rightarrow> http_opts \<Rightarrow> world \<Rightarrow> (js_error + response) \<times> world" where
  "proxy_request cfg service cfg_req s =
     (let (b, s1) = proxy_getBreaker service s;
          (r, b', evs, s2) =
             fire proxy_errorThresholdPercentage b (proxy_action cfg service cfg_req) s1;
          s3 = (fold proxy_listener evs s2)
                 \<lparr>proxy_breakers := (proxy_breakers s2)(service \<mapsto> b')\<rparr>
      in case r of
           Inr result \<Rightarrow> (Inr result, s3)
         | Inl e \<Rightarrow>
             if code e = Some ''EOPENBREAKER''
             then (Inl (circuit_open_error (''Circuit open for service '' @ service)), s3)
             else (Inl e, s3))"

text \<open>The fallback of \<^verbatim>\<open>httpRequest\<close> for a url with no origin: the default axios instance.\<close>

definition direct_attempt ::
  "config \<Rightarrow> http_opts \<Rightarrow> world \<Rightarrow> (js_error + response) \<times> world" where
  "direct_attempt cfg opts s =
     (case axios_request axios_default
             (opts\<lparr>timeout := Some (case timeout opts of Some t \<Rightarrow> t
                                      | None \<Rightarrow> DEFAULT_TIMEOUT cfg)\<rparr>) s of
        (Inl e, s') \<Rightarrow> (Inl e, s')
      | (Inr resp, s') \<Rightarrow>
          if 500 \<le> status resp then (Inl (HTTP_error resp), s') else (Inr resp, s'))"

definition httpRequest ::
  "config \<Rightarrow> http_opts \<Rightarrow> world \<Rightarrow> (js_error + response) \<times> world" where
  "httpRequest cfg opts s =
     (case truthy (serviceName opts) of
        Some service \<Rightarrow> proxy_request cfg service opts s
      | None \<Rightarrow>
         (case truthy (url opts) of
            None \<Rightarrow>
              (Inl (Error ''httpRequest requires url when serviceName is not provided''), s)
          | Some u \<Rightarrow>
             (let origin = getOriginFromUrl cfg u in
              if origin = []
              then pRetry (DEFAULT_RETRIES cfg) (\<lambda>e s. s) (direct_attempt cfg opts) s
              else
               (let (b, s1) = getBreakerForHost cfg origin s;
                    (r, b', evs, s2) =
                       fire (HTTP_BREAKER_ERROR_THRESHOLD_PCT cfg) b
                         (host_action cfg origin opts) s1;
                    s3 = (fold host_listener evs s2)
                           \<lparr>hostBreakers := (hostBreakers s2)(origin \<mapsto> b')\<rparr>
                in case r of
                     Inr resp \<Rightarrow> (Inr resp, s3)
                   | Inl e \<Rightarrow>
                       if code e = Some ''EOPENBREAKER''
                       then (Inl (circuit_open_error (''Circuit open for host '' @ origin)), s3)
                       else (Inl e, s3)))))"

definition state_name :: "breaker \<Rightarrow> string" where
  "state_name b =
     (if circuit_state b = OPEN then ''open''
      else if circuit_state b = HALF_OPEN then ''halfOpen'' else ''closed'')"

definition getBreakerStates :: "world \<Rightarrow> (string \<rightharpoonup> string)" where
  "getBreakerStates s = (\<lambda>origin. map_option state_name (hostBreakers s origin))"

text \<open>The state of the module when it has just been loaded, with a given transport.\<close>

definition fresh :: "outcome list \<Rightarrow> outcome \<Rightarrow> world" where
  "fresh outs dflt =
     \<lparr>hostAxiosInstances = Map.empty, hostBreakers = Map.empty,
      proxy_axiosInstances = Map.empty, proxy_breakers = Map.empty,
      next_ident = 0, queue = outs, otherwise = dflt, sent = [], logs = []\<rparr>"

text \<open>
  A stand-in for the platform's URL parser on plain \<^verbatim>\<open>http://host/path\<close> and
  \<^verbatim>\<open>https://host/path\<close> strings, used to run the client on concrete calls.
\<close>

definition authority :: "string \<Rightarrow> string" where
  "authority rest = takeWhile (\<lambda>c. c \<noteq> CHR ''/'' \<and> c \<noteq> CHR ''?'' \<and> c \<noteq> CHR ''#'') rest"

definition plain_origin :: "string \<Rightarrow> string option" where
  "plain_origin u =
     (if take 8 u = ''https://'' \<and> authority (drop 8 u) \<noteq> []
      then Some (''https://'' @ authority (drop 8 u))
      else if take 7 u = ''http://'' \<and> authority (drop 7 u) \<noteq> []
      then Some (''http://'' @ authority (drop 7 u))
      else None)"

definition default_config :: config where
  "default_config =
     \<lparr>DEFAULT_TIMEOUT = 10000, DEFAULT_RETRIES = 2, HTTP_BREAKER_ERROR_THRESHOLD_PCT = 50,
      URL_origin = plain_origin,
      serviceRegistry =
        [''engagement'' \<mapsto> ''http://engagement:4002'',
         ''pythonAgent'' \<mapsto> ''http://cyrex:8000'',
         ''googleMaps'' \<mapsto> ''https://maps.googleapis.com'',
         ''openWeather'' \<mapsto> ''https://api.openweathermap.org'',
         ''eventbrite'' \<mapsto> ''https://www.eventbriteapi.com/v3'',
         ''yelp'' \<mapsto> ''https://api.yelp.com'']\<rparr>"

text \<open>The number of transport invocations made so far.\<close>

definition invocations :: "world \<Rightarrow> nat" where
  "invocations s = length (sent s)"

section \<open>services/cacheService.ts\<close>

text \<open>
  The Redis server behind the client: the stored strings, whether each of the next
  commands fails (connection lost, server error), and the commands it has received.
  \<open>JSON.stringify\<close> and \<open>JSON.parse\<close> belong to the platform; they are parameters, \<open>None\<close>
  when they throw.
\<close>

datatype redis_command = GET string | SETEX string nat string | DEL string

record 'v json_codec =
  JSON_stringify :: "'v \<Rightarrow> string option"
  JSON_parse :: "string \<Rightarrow> 'v option"

record cache =
  client :: bool
  isConnected :: bool
  cache_breaker :: "breaker option"
  REDIS_BREAKER_ERROR_THRESHOLD_PCT :: nat
  stored :: "string \<rightharpoonup> string"
  faults :: "bool list"
  commands :: "redis_command list"
  cache_logs :: "log_line list"

definition cache_logger :: "level \<Rightarrow> string \<Rightarrow> cache \<Rightarrow> cache" where
  "cache_logger l m s = s\<lparr>cache_logs := cache_logs s @ [(l, m)]\<rparr>"

text \<open>One command sent to the server: it is recorded, and fails if the server says so.\<close>

definition redis_send :: "redis_command \<Rightarrow> cache \<Rightarrow> bool \<times> cache" where
  "redis_send cmd s =
     (case faults s of
        [] \<Rightarrow> (True, s\<lparr>commands := commands s @ [cmd]\<rparr>)
      | failed # rest \<Rightarrow> (\<not> failed, s\<lparr>faults := rest, commands := commands s @ [cmd]\<rparr>))"

definition client_get :: "string \<Rightarrow> cache \<Rightarrow> (js_error + string option) \<times> cache" where
  "client_get key s =
     (case redis_send (GET key) s of
        (True, s') \<Rightarrow> (Inr (stored s' key), s')
      | (False, s') \<Rightarrow> (Inl (Error ''redis command failed''), s'))"

definition client_setEx :: "string \<Rightarrow> nat \<Rightarrow> string \<Rightarrow> cache \<Rightarrow> (js_error + unit) \<times> cache" where
  "client_setEx key ttl v s =
     (case redis_send (SETEX key ttl v) s of
        (True, s') \<Rightarrow> (Inr (), s'\<lparr>stored := (stored s')(key \<mapsto> v)\<rparr>)
      | (False, s') \<Rightarrow> (Inl (Error ''redis command failed''), s'))"

definition client_del :: "string \<Rightarrow> cache \<Rightarrow> (js_error + unit) \<times> cache" where
  "client_del key s =
     (case redis_send (DEL key) s of
        (True, s') \<Rightarrow> (Inr (), s'\<lparr>stored := (stored s')(key := None)\<rparr>)
      | (False, s') \<Rightarrow> (Inl (Error ''redis command failed''), s'))"

fun cache_listener :: "event \<Rightarrow> cache \<Rightarrow> cache" where
  "cache_listener Opened s = cache_logger Warn ''Redis circuit open'' s"
| "cache_listener Closed s = cache_logger Info ''Redis circuit closed'' s"
| "cache_listener (Failure e) s = cache_logger Warn ''Redis circuit failure'' s"
| "cache_listener _ s = s"

text \<open>
  \<^verbatim>\<open>if (breaker) await breaker.fire(exec) else await exec()\<close>, with the breaker the
  instance holds updated by the call.
\<close>

definition through_breaker ::
  "breaker option \<Rightarrow> (cache \<Rightarrow> (js_error + 'a) \<times> cache) \<Rightarrow> cache \<Rightarrow> (js_error + 'a) \<times> cache" where
  "through_breaker breaker exec s =
     (case breaker of
        Some b \<Rightarrow>
          (let (r, b', evs, s') = fire (REDIS_BREAKER_ERROR_THRESHOLD_PCT s) b exec s
           in (r, (fold cache_listener evs s')\<lparr>cache_breaker := Some b'\<rparr>))
      | None \<Rightarrow> exec s)"

definition breaker_opened :: "breaker option \<Rightarrow> bool" where
  "breaker_opened breaker = (case breaker of Some b \<Rightarrow> circuit_state b = OPEN | None \<Rightarrow> False)"

definition get_exec :: "'v json_codec \<Rightarrow> string \<Rightarrow> cache \<Rightarrow> (js_error + 'v option) \<times> cache" where
  "get_exec codec key s =
     (case client_get key s of
        (Inl e, s') \<Rightarrow> (Inl e, s')
      | (Inr v, s') \<Rightarrow>
          (case truthy v of
             Some text \<Rightarrow>
               (case JSON_parse codec text of
                  Some parsed \<Rightarrow> (Inr (Some parsed), s')
                | None \<Rightarrow> (Inl (Error ''Unexpected token in JSON''), s'))
           | None \<Rightarrow> (Inr None, s')))"

text \<open>The body of the \<^verbatim>\<open>try\<close> block of \<open>get\<close>, and \<open>get\<close> with its \<^verbatim>\<open>catch\<close>.\<close>

definition get_try :: "'v json_codec \<Rightarrow> string \<Rightarrow> cache \<Rightarrow> (js_error + 'v option) \<times> cache" where
  "get_try codec key s =
     (if \<not> isConnected s \<or> \<not> client s
      then (Inr None, cache_logger Warn ''Redis not connected, skipping cache get'' s)
      else if breaker_opened (cache_breaker s)
      then (Inr None,
            cache_logger Warn ''Redis breaker open - treating as cache miss for get'' s)
      else through_breaker (cache_breaker s) (get_exec codec key) s)"

definition cache_get :: "'v json_codec \<Rightarrow> string \<Rightarrow> cache \<Rightarrow> (js_error + 'v option) \<times> cache" where
  "cache_get codec key s =
     (case get_try codec key s of
        (Inr v, s') \<Rightarrow> (Inr v, s')
      | (Inl error, s') \<Rightarrow> (Inr None, cache_logger Err (''Cache get error for key '' @ key @ '':'') s'))"

definition set_exec ::
  "'v json_codec \<Rightarrow> string \<Rightarrow> 'v \<Rightarrow> nat \<Rightarrow> cache \<Rightarrow> (js_error + unit) \<times> cache" where
  "set_exec codec key v ttl s =
     (case JSON_stringify codec v of
        None \<Rightarrow> (Inl (Error ''Converting circular structure to JSON''), s)
      | Some stringValue \<Rightarrow> client_setEx key ttl stringValue s)"

definition set_try ::
  "'v json_codec \<Rightarrow> string \<Rightarrow> 'v \<Rightarrow> nat \<Rightarrow> cache \<Rightarrow> (js_error + unit) \<times> cache" where
  "set_try codec key v ttl s =
     (if \<not> isConnected s \<or> \<not> client s
      then (Inr (), cache_logger Warn ''Redis not connected, skipping cache set'' s)
      else if breaker_opened (cache_breaker s)
      then (Inr (), cache_logger Warn ''Redis breaker open - skipping cache set'' s)
      else through_breaker (cache_breaker s) (set_exec codec key v ttl) s)"

definition cache_set ::
  "'v json_codec \<Rightarrow> string \<Rightarrow> 'v \<Rightarrow> nat \<Rightarrow> cache \<Rightarrow> (js_error + unit) \<times> cache" where
  "cache_set codec key v ttl s =
     (case set_try codec key v ttl s of
        (Inr u, s') \<Rightarrow> (Inr (), s')
      | (Inl error, s') \<Rightarrow> (Inr (), cache_logger Err (''Cache set error for key '' @ key @ '':'') s'))"

definition del_try :: "string \<Rightarrow> cache \<Rightarrow> (js_error + unit) \<times> cache" where
  "del_try key s =
     (if \<not> isConnected s \<or> \<not> client s then (Inr (), s)
      else if breaker_opened (cache_breaker s)
      then (Inr (), cache_logger Warn ''Redis breaker open - skipping delete'' s)
      else through_breaker (cache_breaker s) (client_del key) s)"

definition cache_del :: "string \<Rightarrow> cache \<Rightarrow> (js_error + unit) \<times> cache" where
  "cache_del key s =
     (case del_try key s of
        (Inr u, s') \<Rightarrow> (Inr (), s')
      | (Inl error, s') \<Rightarrow>
          (Inr (), cache_logger Err (''Cache delete error for key '' @ key @ '':'') s'))"

text \<open>
  A stand-in for the platform's JSON on strings of plain characters (no quote, backslash
  or control character): such a string is serialised between double quotes, and a text
  between double quotes is parsed to what they enclose; any other text is refused. And a
  cache that stores one such value, with a client, a connection that is up or down and a
  breaker in a given state.
\<close>

definition quoted :: "string \<Rightarrow> string" where
  "quoted v = CHR 0x22 # v @ [CHR 0x22]"

definition plain_codec :: "string json_codec" where
  "plain_codec =
     \<lparr>JSON_stringify = (\<lambda>v. Some (quoted v)),
      JSON_parse = (\<lambda>text.
        case text of
          [] \<Rightarrow> None
        | c # rest \<Rightarrow>
            if c = CHR 0x22 \<and> rest \<noteq> [] \<and> last rest = CHR 0x22 then Some (butlast rest)
            else None)\<rparr>"

definition cache_with :: "circuit \<Rightarrow> bool \<Rightarrow> cache" where
  "cache_with st up =
     \<lparr>client = True, isConnected = up,
      cache_breaker = Some ((new_CircuitBreaker 0)\<lparr>circuit_state := st\<rparr>),
      REDIS_BREAKER_ERROR_THRESHOLD_PCT = 50,
      stored = [''user:42:preferences'' \<mapsto> quoted ''dark''], faults = [], commands = [],
      cache_logs = []\<rparr>"

text \<open>
  The backend is not to be used: the connection is down, there is no client, or the
  breaker of the cache is open. And what it means that a call left the backend alone: no
  command was sent, and the stored values, the pending faults and the breaker are as
  before.
\<close>

definition unavailable :: "cache \<Rightarrow> bool" where
  "unavailable s \<longleftrightarrow>
     \<not> isConnected s \<or> \<not> client s \<or> breaker_opened (cache_breaker s)"

definition untouched :: "cache \<Rightarrow> cache \<Rightarrow> bool" where
  "untouched s s' \<longleftrightarrow>
     commands s' = commands s \<and> stored s' = stored s \<and> faults s' = faults s
     \<and> cache_breaker s' = cache_breaker s"

section \<open>The rate-limit middlewares\<close>

text \<open>JavaScript string methods, on ASCII text.\<close>

definition startsWith :: "string \<Rightarrow> string \<Rightarrow> bool" where
  "startsWith s prefix = (take (length prefix) s = prefix)"

fun str_includes :: "string \<Rightarrow> string \<Rightarrow> bool" where
  "str_includes [] sub = (sub = [])"
| "str_includes (c # cs) sub = (startsWith (c # cs) sub \<or> str_includes cs sub)"

definition lower_char :: "char \<Rightarrow> char" where
  "lower_char c =
     (case map_of (zip ''ABCDEFGHIJKLMNOPQRSTUVWXYZ'' ''abcdefghijklmnopqrstuvwxyz'') c of
        Some l \<Rightarrow> l
      | None \<Rightarrow> c)"

definition toLowerCase :: "string \<Rightarrow> string" where
  "toLowerCase s = map lower_char s"

text \<open>
  Modelled from the spec: \<^verbatim>\<open>rate-limiter-flexible\<close> is a dependency, not under the
  sources. Sections 3 and 4.5: a counter per key holds the consumed points and the time
  its window resets; a consume adds one point, opening a new window of \<open>duration\<close>
  seconds when the key has none that is still running; with more points consumed than
  \<open>points\<close> the consume is rejected with a \<^verbatim>\<open>RateLimiterRes\<close> whose \<^verbatim>\<open>msBeforeNext\<close> is the
  time left until the reset. With a \<open>blockDuration\<close>, the consume that first exceeds the
  quota blocks the key for that long. Times are in milliseconds. A consume on the
  Redis-backed limiter can also fail with an ordinary error when the store cannot be
  reached.
\<close>

record limiter_opts =
  points :: nat
  duration :: nat
  blockDuration :: nat

type_synonym counters = "string \<rightharpoonup> nat \<times> nat"

datatype consumed = Resolved | RateLimiterRes nat | StoreError js_error

definition consume :: "limiter_opts \<Rightarrow> string \<Rightarrow> nat \<Rightarrow> counters \<Rightarrow> consumed \<times> counters" where
  "consume opt key t cs =
     (let (used, resets) =
            (case cs key of
               Some (n, until) \<Rightarrow>
                 if t < until then (n + 1, until) else (1, t + duration opt * 1000)
             | None \<Rightarrow> (1, t + duration opt * 1000))
      in if points opt < used
         then if 0 < blockDuration opt \<and> used \<le> points opt + 1
              then (RateLimiterRes (blockDuration opt * 1000),
                    cs(key \<mapsto> (used, t + blockDuration opt * 1000)))
              else (RateLimiterRes (resets - t), cs(key \<mapsto> (used, resets)))
         else (Resolved, cs(key \<mapsto> (used, resets))))"

definition redis_consume ::
  "bool \<Rightarrow> limiter_opts \<Rightarrow> string \<Rightarrow> nat \<Rightarrow> counters \<Rightarrow> consumed \<times> counters" where
  "redis_consume storeFails opt key t cs =
     (if storeFails then (StoreError (Error ''Connection is closed.''), cs)
      else consume opt key t cs)"

text \<open>The outcomes of successive consumes of one key, at the given times.\<close>

fun consume_each ::
  "limiter_opts \<Rightarrow> string \<Rightarrow> nat list \<Rightarrow> counters \<Rightarrow> consumed list \<times> counters" where
  "consume_each opt key [] cs = ([], cs)"
| "consume_each opt key (t # ts) cs =
     (case consume opt key t cs of
        (r, cs') \<Rightarrow> (case consume_each opt key ts cs' of (rs, cs'') \<Rightarrow> (r # rs, cs'')))"

text \<open>
  What a middleware sees of its surroundings: \<^verbatim>\<open>process.env\<close>, whether the
  \<^verbatim>\<open>redisReady\<close> promise resolved, whether the store fails during this request, and the
  clock. And the Express request and what the middleware does with the response.
\<close>

record outside =
  process_env :: "string \<rightharpoonup> string"
  redisReady :: bool
  storeFails :: bool
  now :: nat

record request =
  req_path :: string
  user_agent :: "string option"
  userId :: "string option"
  ip :: "string option"

record reply =
  reply_status :: nat
  reply_headers :: "(string \<times> string) list"
  reply_json :: json

datatype verdict = Next | Sent reply

definition Math_ceil_seconds :: "nat \<Rightarrow> nat" where
  "Math_ceil_seconds ms = (ms + 999) div 1000"

subsection \<open>The rateBot middleware\<close>

definition rl_main :: limiter_opts where
  "rl_main = \<lparr>points = 100, duration = 900, blockDuration = 0\<rparr>"

definition rl_burst :: limiter_opts where
  "rl_burst = \<lparr>points = 10, duration = 1, blockDuration = 0\<rparr>"

record rate_state =
  rateLimiterRedis :: counters
  tokenBucketLimiter :: counters
  console :: "log_line list"

definition console_log :: "level \<Rightarrow> string \<Rightarrow> rate_state \<Rightarrow> rate_state" where
  "console_log l m s = s\<lparr>console := console s @ [(l, m)]\<rparr>"

definition getKey :: "request \<Rightarrow> string" where
  "getKey req =
     (case truthy (userId req) of
        Some u \<Rightarrow> u
      | None \<Rightarrow> (case truthy (ip req) of Some a \<Rightarrow> a | None \<Rightarrow> ''anonymous''))"

definition isBotUserAgent :: "request \<Rightarrow> bool" where
  "isBotUserAgent req =
     (let ua = toLowerCase (case truthy (user_agent req) of Some a \<Rightarrow> a | None \<Rightarrow> [])
      in str_includes ua ''bot'' \<or> str_includes ua ''crawler'' \<or> str_includes ua ''spider'')"

definition bot_reply :: reply where
  "bot_reply =
     \<lparr>reply_status = 403, reply_headers = [],
      reply_json = JObj [(''success'', JBool False), (''message'', JStr ''Bots are not allowed'')]\<rparr>"

definition too_many :: "nat \<Rightarrow> reply" where
  "too_many msBeforeNext =
     (let retryAfterSec = Math_ceil_seconds msBeforeNext
      in \<lparr>reply_status = 429,
          reply_headers = [(''Retry-After'', String_nat retryAfterSec)],
          reply_json =
            JObj [(''success'', JBool False),
                  (''message'', JStr ''Too many requests, please try again later.''),
                  (''retryAfter'', JNum (int retryAfterSec))]\<rparr>)"

definition rateBot :: "outside \<Rightarrow> request \<Rightarrow> rate_state \<Rightarrow> verdict \<times> rate_state" where
  "rateBot out req s =
     (if process_env out ''NODE_ENV'' \<noteq> Some ''production'' then (Next, s)
      else if startsWith (req_path req) ''/api/auth'' then (Next, s)
      else if isBotUserAgent req then (Sent bot_reply, s)
      else
       (let key = getKey req in
        if \<not> redisReady out
        then (Next, console_log Warn ''[rate-limit] Redis unavailable; failing open'' s)
        else
         (case redis_consume (storeFails out) rl_main key (now out) (rateLimiterRedis s) of
            (Resolved, main') \<Rightarrow>
              (case consume rl_burst key (now out) (tokenBucketLimiter s) of
                 (Resolved, burst') \<Rightarrow>
                   (Next, s\<lparr>rateLimiterRedis := main', tokenBucketLimiter := burst'\<rparr>)
               | (RateLimiterRes ms, burst') \<Rightarrow>
                   (Sent (too_many ms),
                    s\<lparr>rateLimiterRedis := main', tokenBucketLimiter := burst'\<rparr>)
               | (StoreError e, burst') \<Rightarrow>
                   (Next, console_log Err ''[rate-limit] unexpected error:''
                            (s\<lparr>rateLimiterRedis := main', tokenBucketLimiter := burst'\<rparr>)))
          | (RateLimiterRes ms, main') \<Rightarrow> (Sent (too_many ms), s\<lparr>rateLimiterRedis := main'\<rparr>)
          | (StoreError e, main') \<Rightarrow>
              (Next, console_log Err ''[rate-limit] unexpected error:''
                       (s\<lparr>rateLimiterRedis := main'\<rparr>)))))"

subsection \<open>middleware/perEndpointLimiter.ts\<close>

datatype endpoint = Users | Adventures

definition endpointRules :: "(string \<times> endpoint) list" where
  "endpointRules = [(''/api/users'', Users), (''/api/adventures'', Adventures)]"

fun endpoint_opts :: "endpoint \<Rightarrow> limiter_opts" where
  "endpoint_opts Users = \<lparr>points = 50, duration = 900, blockDuration = 60\<rparr>"
| "endpoint_opts Adventures = \<lparr>points = 200, duration = 900, blockDuration = 30\<rparr>"

record endpoint_state =
  limiters :: "endpoint \<Rightarrow> counters"
  endpoint_console :: "log_line list"

definition getLimiterForPath :: "string \<Rightarrow> endpoint option" where
  "getLimiterForPath path =
     (case find (\<lambda>(prefix, limiter). startsWith path prefix) endpointRules of
        Some (prefix, limiter) \<Rightarrow> Some limiter
      | None \<Rightarrow> None)"

definition getRateLimitKey :: "request \<Rightarrow> string" where
  "getRateLimitKey req =
     (case truthy (userId req) of
        Some u \<Rightarrow> u
      | None \<Rightarrow> (case truthy (ip req) of Some a \<Rightarrow> a | None \<Rightarrow> ''anonymous''))"

definition endpoint_exceeded :: "nat \<Rightarrow> reply" where
  "endpoint_exceeded msBeforeNext =
     (let retryAfterSeconds = Math_ceil_seconds msBeforeNext
      in \<lparr>reply_status = 429,
          reply_headers = [(''Retry-After'', String_nat retryAfterSeconds)],
          reply_json =
            JObj [(''message'', JStr ''Endpoint rate limit exceeded''),
                  (''retryAfterSeconds'', JNum (int retryAfterSeconds))]\<rparr>)"

definition endpoint_log :: "level \<Rightarrow> string \<Rightarrow> endpoint_state \<Rightarrow> endpoint_state" where
  "endpoint_log l m s = s\<lparr>endpoint_console := endpoint_console s @ [(l, m)]\<rparr>"

definition perEndpointLimiter ::
  "outside \<Rightarrow> request \<Rightarrow> endpoint_state \<Rightarrow> verdict \<times> endpoint_state" where
  "perEndpointLimiter out req s =
     (case getLimiterForPath (req_path req) of
        None \<Rightarrow> (Next, s)
      | Some limiter \<Rightarrow>
         (let key = getRateLimitKey req in
          if \<not> redisReady out
          then (Next, endpoint_log Warn ''[rate-limit] Redis not available; failing open'' s)
          else
           (case redis_consume (storeFails out) (endpoint_opts limiter) key (now out)
                   (limiters s limiter) of
              (Resolved, cs') \<Rightarrow> (Next, s\<lparr>limiters := (limiters s)(limiter := cs')\<rparr>)
            | (RateLimiterRes ms, cs') \<Rightarrow>
                (Sent (endpoint_exceeded ms), s\<lparr>limiters := (limiters s)(limiter := cs')\<rparr>)
            | (StoreError e, cs') \<Rightarrow>
                (Next, endpoint_log Err ''[rate-limit] unexpected error:''
                         (s\<lparr>limiters := (limiters s)(limiter := cs')\<rparr>)))))"

text \<open>
  A key has spent its quota when its window is still running and holds at least
  \<open>points\<close> consumed points: the next consume is the one beyond the quota.
  \<open>msBeforeNext\<close> is the time that consume is told to wait: the block duration when it
  is the first beyond the quota of a limiter that blocks, the time left in the window
  otherwise. A request reaches the limiters of \<open>rateBot\<close> when it is not exempt, not a
  bot, and Redis is up.
\<close>

definition spent :: "limiter_opts \<Rightarrow> counters \<Rightarrow> string \<Rightarrow> nat \<Rightarrow> bool" where
  "spent opt cs key t =
     (case cs key of Some (n, until) \<Rightarrow> t < until \<and> points opt \<le> n | None \<Rightarrow> False)"

definition msBeforeNext :: "limiter_opts \<Rightarrow> counters \<Rightarrow> string \<Rightarrow> nat \<Rightarrow> nat" where
  "msBeforeNext opt cs key t =
     (case cs key of
        Some (n, until) \<Rightarrow>
          if 0 < blockDuration opt \<and> n \<le> points opt then blockDuration opt * 1000
          else until - t
      | None \<Rightarrow> 0)"

definition reaches_limiters :: "outside \<Rightarrow> request \<Rightarrow> bool" where
  "reaches_limiters out req \<longleftrightarrow>
     process_env out ''NODE_ENV'' = Some ''production''
     \<and> \<not> startsWith (req_path req) ''/api/auth'' \<and> \<not> isBotUserAgent req
     \<and> redisReady out \<and> \<not> storeFails out"

text \<open>The lower-cased User-Agent text that \<open>isBotUserAgent\<close> searches.\<close>

definition user_agent_text :: "request \<Rightarrow> string" where
  "user_agent_text req = toLowerCase (case truthy (user_agent req) of Some a \<Rightarrow> a | None \<Rightarrow> [])"

text \<open>
  Concrete surroundings, requests and limiter states: production with Redis up at time 0;
  a Redis outage under an environment that asks for fail-closed in every way it can; a
  crawler and a browser; limiters with nothing consumed, with ten points consumed in the
  running windows, with the hundred points of the main limiter consumed, and with the
  fifty points of \<^verbatim>\<open>/api/users\<close> consumed; and the same
  request served at a list of times.
\<close>

definition production :: outside where
  "production =
     \<lparr>process_env = [''NODE_ENV'' \<mapsto> ''production''], redisReady = True, storeFails = False,
      now = 0\<rparr>"

definition redis_down :: outside where
  "redis_down =
     \<lparr>process_env = [''NODE_ENV'' \<mapsto> ''production'', ''RATE_LIMIT_FAIL_MODE'' \<mapsto> ''closed'',
                      ''RATE_LIMIT_FAIL_OPEN'' \<mapsto> ''false''],
      redisReady = False, storeFails = True, now = 0\<rparr>"

definition googlebot :: "string \<Rightarrow> request" where
  "googlebot path =
     \<lparr>req_path = path,
      user_agent = Some ''Mozilla/5.0 (compatible; Googlebot/2.1; +http://www.google.com/bot.html)'',
      userId = None, ip = Some ''203.0.113.7''\<rparr>"

definition browser :: "string \<Rightarrow> request" where
  "browser path =
     \<lparr>req_path = path, user_agent = Some ''Mozilla/5.0 (X11; Linux x86_64) Firefox/128.0'',
      userId = None, ip = Some ''198.51.100.4''\<rparr>"

definition no_requests_yet :: rate_state where
  "no_requests_yet = \<lparr>rateLimiterRedis = Map.empty, tokenBucketLimiter = Map.empty, console = []\<rparr>"

definition no_endpoint_requests_yet :: endpoint_state where
  "no_endpoint_requests_yet = \<lparr>limiters = (\<lambda>_. Map.empty), endpoint_console = []\<rparr>"

definition ten_consumed :: rate_state where
  "ten_consumed =
     \<lparr>rateLimiterRedis = [''198.51.100.4'' \<mapsto> (10, 900000)],
      tokenBucketLimiter = [''198.51.100.4'' \<mapsto> (10, 1000)], console = []\<rparr>"

definition hundred_consumed :: rate_state where
  "hundred_consumed =
     \<lparr>rateLimiterRedis = [''198.51.100.4'' \<mapsto> (100, 900000)],
      tokenBucketLimiter = Map.empty, console = []\<rparr>"

definition fifty_consumed :: endpoint_state where
  "fifty_consumed =
     \<lparr>limiters = (\<lambda>_. Map.empty)(Users := [''198.51.100.4'' \<mapsto> (50, 900000)]),
      endpoint_console = []\<rparr>"

fun requests_at :: "nat list \<Rightarrow> request \<Rightarrow> rate_state \<Rightarrow> verdict list" where
  "requests_at [] req s = []"
| "requests_at (t # ts) req s =
     (case rateBot (production\<lparr>now := t\<rparr>) req s of (v, s') \<Rightarrow> v # requests_at ts req s')"

section \<open>Target identities\<close>










section \<open>Concrete calls\<close>

text \<open>
  The replies and calls of \<^verbatim>\<open>tests/httpClient.test.ts\<close> and of the end-to-end scenario,
  a call with no url, a call with a relative url and a base URL, a transport that fails
  three times and then succeeds, and the call by service name of the gamification
  service.
\<close>

definition r500 :: response where
  "r500 = \<lparr>status = 500, body = JObj []\<rparr>"

definition r200 :: response where
  "r200 = \<lparr>status = 200, body = JObj [(''ok'', JBool True)]\<rparr>"

definition r404 :: response where
  "r404 = \<lparr>status = 404, body = JNull\<rparr>"

definition get_url :: "string \<Rightarrow> http_opts" where
  "get_url u =
     \<lparr>serviceName = None, url = Some u, baseURL = None, http_method = Some ''get'',
      timeout = None, payload = None\<rparr>"

definition no_opts :: http_opts where
  "no_opts =
     \<lparr>serviceName = None, url = None, baseURL = None, http_method = None,
      timeout = None, payload = None\<rparr>"

definition relative_call :: http_opts where
  "relative_call =
     \<lparr>serviceName = None, url = Some ''/v1/things'',
      baseURL = Some ''https://api.example.com'',
      http_method = Some ''get'', timeout = None, payload = None\<rparr>"


definition engagement_call :: http_opts where
  "engagement_call =
     \<lparr>serviceName = Some ''engagement'', url = Some ''/streaks/update'', baseURL = None,
      http_method = Some ''post'', timeout = None,
      payload = Some (JObj [(''streakType'', JStr ''daily'')])\<rparr>"

section \<open>Properties of the HTTP client\<close>

subsection \<open>Retries and what they leave untouched\<close>

lemma pRetry_preserves:
  assumes att: "\<And>t. P t \<Longrightarrow> P (snd (attempt t))"
      and onf: "\<And>e t. P t \<Longrightarrow> P (onF e t)"
  shows "P s \<Longrightarrow> P (snd (pRetry n onF attempt s))"
proof (induction n arbitrary: s)
  case 0
  then show ?case using att[of s] onf by (auto split: prod.splits sum.splits)
next
  case (Suc n)
  show ?case
  proof (cases "attempt s")
    case (Pair r s')
    with att[OF Suc.prems] have P': "P s'" by simp
    show ?thesis
    proof (cases r)
      case (Inl e)
      with Pair Suc.IH[OF onf[OF P', of e]] show ?thesis by simp
    next
      case (Inr v)
      with Pair P' show ?thesis by simp
    qed
  qed
qed

lemma transport_fields [simp]:
  "hostBreakers (snd (transport rq s)) = hostBreakers s"
  "proxy_breakers (snd (transport rq s)) = proxy_breakers s"
  "next_ident (snd (transport rq s)) = next_ident s"
  "hostAxiosInstances (snd (transport rq s)) = hostAxiosInstances s"
  "proxy_axiosInstances (snd (transport rq s)) = proxy_axiosInstances s"
  "invocations (snd (transport rq s)) = Suc (invocations s)"
  by (simp_all add: transport_def invocations_def split: list.splits)

lemma axios_request_fields [simp]:
  "hostBreakers (snd (axios_request inst opts s)) = hostBreakers s"
  "proxy_breakers (snd (axios_request inst opts s)) = proxy_breakers s"
  "next_ident (snd (axios_request inst opts s)) = next_ident s"
  "hostAxiosInstances (snd (axios_request inst opts s)) = hostAxiosInstances s"
  "proxy_axiosInstances (snd (axios_request inst opts s)) = proxy_axiosInstances s"
  "invocations (snd (axios_request inst opts s)) = Suc (invocations s)"
  by (simp_all add: axios_request_def split: prod.splits outcome.splits)
     (metis snd_conv transport_fields)+

lemma logger_fields [simp]:
  "hostBreakers (logger l m s) = hostBreakers s"
  "proxy_breakers (logger l m s) = proxy_breakers s"
  "next_ident (logger l m s) = next_ident s"
  "hostAxiosInstances (logger l m s) = hostAxiosInstances s"
  "proxy_axiosInstances (logger l m s) = proxy_axiosInstances s"
  "invocations (logger l m s) = invocations s"
  "queue (logger l m s) = queue s"
  "otherwise (logger l m s) = otherwise s"
  by (simp_all add: logger_def invocations_def)

lemma host_attempt_fields [simp]:
  "hostBreakers (snd (host_attempt inst opts s)) = hostBreakers s"
  "proxy_breakers (snd (host_attempt inst opts s)) = proxy_breakers s"
  "next_ident (snd (host_attempt inst opts s)) = next_ident s"
  "invocations (snd (host_attempt inst opts s)) = Suc (invocations s)"
proof -
  obtain r s' where ax: "axios_request inst opts s = (r, s')" by (cases "axios_request inst opts s")
  have f: "hostBreakers s' = hostBreakers s" "proxy_breakers s' = proxy_breakers s"
    "next_ident s' = next_ident s" "invocations s' = Suc (invocations s)"
    using axios_request_fields[of inst opts s] ax by simp_all
  show "hostBreakers (snd (host_attempt inst opts s)) = hostBreakers s"
    "proxy_breakers (snd (host_attempt inst opts s)) = proxy_breakers s"
    "next_ident (snd (host_attempt inst opts s)) = next_ident s"
    "invocations (snd (host_attempt inst opts s)) = Suc (invocations s)"
    using ax f by (simp_all add: host_attempt_def split: sum.splits)
qed

lemma host_attempt_5xx:
  assumes "queue s = Reply r # rest" "500 \<le> status r" "validateStatus inst (status r)"
  shows "\<exists>e s'. host_attempt inst opts s = (Inl e, s') \<and> queue s' = rest
            \<and> invocations s' = Suc (invocations s)"
  using assms
  by (simp add: host_attempt_def axios_request_def transport_def invocations_def)

lemma host_attempt_below_500:
  assumes "queue s = Reply r # rest" "status r < 500" "validateStatus inst (status r)"
  shows "\<exists>s'. host_attempt inst opts s = (Inr r, s') \<and> queue s' = rest
            \<and> invocations s' = Suc (invocations s)"
  using assms
  by (simp add: host_attempt_def axios_request_def transport_def invocations_def)

lemma pRetry_first_success:
  assumes "attempt s = (Inr r, s')"
  shows "pRetry n onF attempt s = (Inr r, s')"
  using assms by (cases n) simp_all

lemma pRetry_host_retry_then_succeed:
  assumes "\<forall>r\<in>set fails. 500 \<le> status r" and "status ok < 500"
      and "\<forall>st. validateStatus inst st"
  shows "length fails \<le> n \<Longrightarrow> queue s = map Reply fails @ Reply ok # rest \<Longrightarrow>
         \<exists>s'. pRetry n (\<lambda>e. logger lv msg) (host_attempt inst opts) s = (Inr ok, s')
              \<and> queue s' = rest \<and> invocations s' = invocations s + length fails + 1"
  using assms(1)
proof (induction fails arbitrary: s n)
  case Nil
  then have "queue s = Reply ok # rest" by simp
  from host_attempt_below_500[OF this assms(2)] assms(3)
  obtain s' where "host_attempt inst opts s = (Inr ok, s')" "queue s' = rest"
    "invocations s' = Suc (invocations s)" by blast
  then show ?case by (simp add: pRetry_first_success)
next
  case (Cons f fails)
  then obtain m where n: "n = Suc m" and m: "length fails \<le> m" by (cases n) auto
  from Cons.prems have q: "queue s = Reply f # (map Reply fails @ Reply ok # rest)"
    and f: "500 \<le> status f" and fs: "\<forall>r\<in>set fails. 500 \<le> status r" by simp_all
  from host_attempt_5xx[OF q f] assms(3)
  obtain e s1 where a: "host_attempt inst opts s = (Inl e, s1)"
    and q1: "queue s1 = map Reply fails @ Reply ok # rest"
    and i1: "invocations s1 = Suc (invocations s)" by blast
  from q1 have q1': "queue (logger lv msg s1) = map Reply fails @ Reply ok # rest" by simp
  from Cons.IH[OF m q1' fs]
  obtain s' where "pRetry m (\<lambda>e. logger lv msg) (host_attempt inst opts) (logger lv msg s1) = (Inr ok, s')"
    "queue s' = rest" "invocations s' = invocations (logger lv msg s1) + length fails + 1"
    by blast
  with a n i1 show ?case by simp
qed

lemma host_action_registry [simp]:
  "hostBreakers (snd (host_action cfg origin opts s)) = hostBreakers s"
  "proxy_breakers (snd (host_action cfg origin opts s)) = proxy_breakers s"
  "next_ident (snd (host_action cfg origin opts s)) = next_ident s"
proof -
  obtain inst s1 where g: "getAxiosForHost cfg origin s = (inst, s1)"
    by (cases "getAxiosForHost cfg origin s")
  then have s1: "hostBreakers s1 = hostBreakers s" "proxy_breakers s1 = proxy_breakers s"
    "next_ident s1 = next_ident s"
    by (auto simp: getAxiosForHost_def Let_def split: option.splits)
  let ?run = "pRetry (DEFAULT_RETRIES cfg) (\<lambda>e. logger Debug ''HTTP attempt failed for host'')
           (host_attempt inst opts)"
  have "hostBreakers (snd (?run s1)) = hostBreakers s"
    by (rule pRetry_preserves[where P = "\<lambda>t. hostBreakers t = hostBreakers s"]) (simp_all add: s1)
  moreover have "proxy_breakers (snd (?run s1)) = proxy_breakers s"
    by (rule pRetry_preserves[where P = "\<lambda>t. proxy_breakers t = proxy_breakers s"]) (simp_all add: s1)
  moreover have "next_ident (snd (?run s1)) = next_ident s"
    by (rule pRetry_preserves[where P = "\<lambda>t. next_ident t = next_ident s"]) (simp_all add: s1)
  ultimately show "hostBreakers (snd (host_action cfg origin opts s)) = hostBreakers s"
  "proxy_breakers (snd (host_action cfg origin opts s)) = proxy_breakers s"
  "next_ident (snd (host_action cfg origin opts s)) = next_ident s"
    using g by (simp_all add: host_action_def)
qed

lemma getAxiosForHost_accepts_all:
  assumes "\<forall>i st. hostAxiosInstances s origin = Some i \<longrightarrow> validateStatus i st"
  shows "\<forall>st. validateStatus (fst (getAxiosForHost cfg origin s)) st"
  using assms by (auto simp: getAxiosForHost_def Let_def split: option.splits)

lemma getAxiosForHost_transport [simp]:
  "queue (snd (getAxiosForHost cfg origin s)) = queue s"
  "invocations (snd (getAxiosForHost cfg origin s)) = invocations s"
  by (auto simp: getAxiosForHost_def Let_def invocations_def split: option.splits)

lemma host_action_retry_then_succeed:
  assumes "\<forall>r\<in>set fails. 500 \<le> status r" and "status ok < 500"
      and "\<forall>i st. hostAxiosInstances s origin = Some i \<longrightarrow> validateStatus i st"
      and "length fails \<le> DEFAULT_RETRIES cfg"
      and "queue s = map Reply fails @ Reply ok # rest"
  shows "\<exists>s'. host_action cfg origin opts s = (Inr ok, s')
              \<and> queue s' = rest \<and> invocations s' = invocations s + length fails + 1"
proof -
  obtain inst s1 where g: "getAxiosForHost cfg origin s = (inst, s1)"
    by (cases "getAxiosForHost cfg origin s")
  have v: "\<forall>st. validateStatus inst st"
    using getAxiosForHost_accepts_all[OF assms(3), of cfg] g by simp
  have q: "queue s1 = map Reply fails @ Reply ok # rest" and i: "invocations s1 = invocations s"
    using getAxiosForHost_transport[of cfg origin s] g assms(5) by simp_all
  from pRetry_host_retry_then_succeed[OF assms(1,2) v assms(4) q] i g
  show ?thesis by (simp add: host_action_def)
qed

lemma fold_host_listener_fields [simp]:
  "hostBreakers (fold host_listener evs s) = hostBreakers s"
  "proxy_breakers (fold host_listener evs s) = proxy_breakers s"
  "next_ident (fold host_listener evs s) = next_ident s"
  "invocations (fold host_listener evs s) = invocations s"
  "queue (fold host_listener evs s) = queue s"
proof (induction evs arbitrary: s)
  case Nil
  {
    case 1 show ?case by simp
  next
    case 2 show ?case by simp
  next
    case 3 show ?case by simp
  next
    case 4 show ?case by simp
  next
    case 5 show ?case by simp
  }
next
  case (Cons ev evs)
  have step: "hostBreakers (host_listener ev s) = hostBreakers s"
    "proxy_breakers (host_listener ev s) = proxy_breakers s"
    "next_ident (host_listener ev s) = next_ident s"
    "invocations (host_listener ev s) = invocations s"
    "queue (host_listener ev s) = queue s" for s
    by (cases ev; simp)+
  {
    case 1 show ?case by (simp add: Cons.IH step)
  next
    case 2 show ?case by (simp add: Cons.IH step)
  next
    case 3 show ?case by (simp add: Cons.IH step)
  next
    case 4 show ?case by (simp add: Cons.IH step)
  next
    case 5 show ?case by (simp add: Cons.IH step)
  }
qed

subsection \<open>Retry, then success\<close>

text \<open>
  C1. A call by absolute URL (no service name, a url whose origin the platform parses)
  is made while the breaker of that origin is not open. The next transport outcomes are
  \<open>fails\<close>, all of them 5xx replies and no more of them than \<open>DEFAULT_RETRIES\<close>, followed
  by a reply \<open>ok\<close> below 500. Then \<open>httpRequest\<close> resolves with \<open>ok\<close>, the transport has
  been invoked once per attempt (the failures and the success), and the breaker of the
  origin is closed afterwards. The axios instance cached for the origin, if there is
  one, is one that \<open>getAxiosForHost\<close> creates (it accepts every status).
\<close>

theorem httpRequest_retry_then_succeed:
  assumes mode: "truthy (serviceName opts) = None" "truthy (url opts) = Some u"
      and origin: "URL_origin cfg u = Some origin" "origin \<noteq> []"
      and admitted: "getBreakerStates s origin \<noteq> Some ''open''"
      and insts: "\<forall>i st. hostAxiosInstances s origin = Some i \<longrightarrow> validateStatus i st"
      and fails: "\<forall>r\<in>set fails. 500 \<le> status r" "length fails \<le> DEFAULT_RETRIES cfg"
      and ok: "status ok < 500"
      and script: "queue s = map Reply fails @ Reply ok # rest"
  shows "\<exists>s'. httpRequest cfg opts s = (Inr ok, s')
            \<and> invocations s' = invocations s + length fails + 1
            \<and> queue s' = rest
            \<and> getBreakerStates s' origin = Some ''closed''"
proof -
  obtain b s1 where g: "getBreakerForHost cfg origin s = (b, s1)"
    by (cases "getBreakerForHost cfg origin s")
  have b: "circuit_state b \<noteq> OPEN"
    using g admitted
    by (auto simp: getBreakerForHost_def getBreakerStates_def state_name_def new_CircuitBreaker_def
          Let_def split: option.splits if_splits)
  have s1: "queue s1 = queue s" "invocations s1 = invocations s"
    "hostAxiosInstances s1 = hostAxiosInstances s"
    using g by (auto simp: getBreakerForHost_def Let_def invocations_def split: option.splits)
  from insts s1 have insts1: "\<forall>i st. hostAxiosInstances s1 origin = Some i \<longrightarrow> validateStatus i st"
    by simp
  from script s1 have script1: "queue s1 = map Reply fails @ Reply ok # rest" by simp
  from host_action_retry_then_succeed[OF fails(1) ok insts1 fails(2) script1, of opts]
  obtain s2 where act: "host_action cfg origin opts s1 = (Inr ok, s2)"
    and q2: "queue s2 = rest"
    and i2: "invocations s2 = invocations s1 + length fails + 1" by blast
  have go: "getOriginFromUrl cfg u = origin" using origin by (simp add: getOriginFromUrl_def)
  show ?thesis
    using mode go origin(2) g b act q2 i2 s1
    by (cases "circuit_state b")
       (simp_all add: httpRequest_def fire_def Let_def getBreakerStates_def state_name_def
          invocations_def logger_def)
qed

lemma default_config_simps [simp]:
  "DEFAULT_RETRIES default_config = 2"
  "DEFAULT_TIMEOUT default_config = 10000"
  "HTTP_BREAKER_ERROR_THRESHOLD_PCT default_config = 50"
  "URL_origin default_config = plain_origin"
  by (simp_all add: default_config_def)

lemma svc_example_origin: "plain_origin ''https://svc.example/api'' = Some ''https://svc.example''"
  by (simp add: plain_origin_def authority_def)

text \<open>
  The test \<^verbatim>\<open>retries on 5xx and returns success\<close> (500, then 200: two invocations) and
  the end-to-end scenario (500, 500, then 200 with body \<^verbatim>\<open>{ok:true}\<close>: three
  invocations, breaker of \<^verbatim>\<open>https://svc.example\<close> closed).
\<close>

theorem httpRequest_retry_then_succeed_witness:
  "(case httpRequest default_config (get_url ''https://example.com/test'')
           (fresh [Reply r500, Reply r200] (NoReply ''unreachable'')) of
      (r, s') \<Rightarrow> r = Inr r200 \<and> invocations s' = 2)
   \<and> (case httpRequest default_config (get_url ''https://svc.example/api'')
           (fresh [Reply r500, Reply r500, Reply r200] (NoReply ''unreachable'')) of
      (r, s') \<Rightarrow> r = Inr r200 \<and> status r200 = 200 \<and> body r200 = JObj [(''ok'', JBool True)]
         \<and> invocations s' = 3
         \<and> getBreakerStates s' ''https://svc.example'' = Some ''closed'')"
proof -
  let ?s2 = "fresh [Reply r500, Reply r200] (NoReply ''unreachable'')"
  let ?s3 = "fresh [Reply r500, Reply r500, Reply r200] (NoReply ''unreachable'')"
  have "\<exists>s'. httpRequest default_config (get_url ''https://example.com/test'') ?s2 = (Inr r200, s')
            \<and> invocations s' = invocations ?s2 + length [r500] + 1
            \<and> queue s' = []
            \<and> getBreakerStates s' ''https://example.com'' = Some ''closed''"
    by (rule httpRequest_retry_then_succeed[where u = "''https://example.com/test''"])
       (simp_all add: get_url_def plain_origin_def authority_def fresh_def getBreakerStates_def
          r500_def r200_def)
  moreover
  have "\<exists>s'. httpRequest default_config (get_url ''https://svc.example/api'') ?s3 = (Inr r200, s')
            \<and> invocations s' = invocations ?s3 + length [r500, r500] + 1
            \<and> queue s' = []
            \<and> getBreakerStates s' ''https://svc.example'' = Some ''closed''"
    by (rule httpRequest_retry_then_succeed[where u = "''https://svc.example/api''"])
       (simp_all add: get_url_def svc_example_origin fresh_def getBreakerStates_def r500_def r200_def)
  ultimately show ?thesis by (auto simp: fresh_def invocations_def r200_def)
qed

subsection \<open>A call with neither service name nor url\<close>

text \<open>
  C10. When \<open>serviceName\<close> and \<open>url\<close> are both missing or empty, \<open>httpRequest\<close> rejects
  with the error \<^verbatim>\<open>httpRequest requires url when serviceName is not provided\<close> and the
  state is the one before the call: no breaker was created or fired, no axios instance
  was created and the transport was not invoked.
\<close>

theorem httpRequest_requires_url:
  assumes "truthy (serviceName opts) = None" and "truthy (url opts) = None"
  shows "httpRequest cfg opts s =
           (Inl (Error ''httpRequest requires url when serviceName is not provided''), s)"
  using assms by (simp add: httpRequest_def)

theorem httpRequest_requires_url_witness:
  "httpRequest default_config no_opts (fresh [] (Reply r200)) =
     (Inl (Error ''httpRequest requires url when serviceName is not provided''),
      fresh [] (Reply r200))
   \<and> httpRequest default_config (no_opts\<lparr>serviceName := Some [], url := Some []\<rparr>) (fresh [] (Reply r200)) =
     (Inl (Error ''httpRequest requires url when serviceName is not provided''),
      fresh [] (Reply r200))"
  using httpRequest_requires_url[of no_opts default_config "fresh [] (Reply r200)"]
    httpRequest_requires_url[of "no_opts\<lparr>serviceName := Some [], url := Some []\<rparr>" default_config "fresh [] (Reply r200)"]
  by (simp add: no_opts_def)

subsection \<open>The fallback for a url with no origin\<close>

lemma pRetry_invocations:
  assumes att: "\<And>t. invocations (snd (attempt t)) = Suc (invocations t)"
      and onf: "\<And>e t. invocations (onF e t) = invocations t"
  shows "invocations s < invocations (snd (pRetry n onF attempt s))
       \<and> invocations (snd (pRetry n onF attempt s)) \<le> invocations s + n + 1
       \<and> (isl (fst (pRetry n onF attempt s)) \<longrightarrow>
            invocations (snd (pRetry n onF attempt s)) = invocations s + n + 1)"
proof (induction n arbitrary: s)
  case 0
  obtain r s' where a: "attempt s = (r, s')" by (cases "attempt s")
  with att[of s] have "invocations s' = Suc (invocations s)" by simp
  with a onf show ?case by (cases r) simp_all
next
  case (Suc n)
  obtain r s' where a: "attempt s = (r, s')" by (cases "attempt s")
  with att[of s] have i: "invocations s' = Suc (invocations s)" by simp
  show ?case
  proof (cases r)
    case (Inl e)
    from Suc.IH[of "onF e s'"] a Inl i onf[of e s'] show ?thesis by simp
  next
    case (Inr v)
    with a i show ?thesis by simp
  qed
qed

lemma pRetry_commutes:
  assumes att: "\<And>t. attempt (U t) = (fst (attempt t), U (snd (attempt t)))"
      and onf: "\<And>e t. onF e (U t) = U (onF e t)"
  shows "pRetry n onF attempt (U s) = (fst (pRetry n onF attempt s), U (snd (pRetry n onF attempt s)))"
proof (induction n arbitrary: s)
  case 0
  obtain r s' where a: "attempt s = (r, s')" by (cases "attempt s")
  with att[of s] onf show ?case by (cases r) simp_all
next
  case (Suc n)
  obtain r s' where a: "attempt s = (r, s')" by (cases "attempt s")
  show ?case
  proof (cases r)
    case (Inl e)
    with a att[of s] Suc.IH[of "onF e s'"] onf[of e s'] show ?thesis by simp
  next
    case (Inr v)
    with a att[of s] show ?thesis by simp
  qed
qed

lemma direct_attempt_fields [simp]:
  "hostBreakers (snd (direct_attempt cfg opts s)) = hostBreakers s"
  "proxy_breakers (snd (direct_attempt cfg opts s)) = proxy_breakers s"
  "next_ident (snd (direct_attempt cfg opts s)) = next_ident s"
  "invocations (snd (direct_attempt cfg opts s)) = Suc (invocations s)"
proof -
  let ?o = "opts\<lparr>timeout := Some (case timeout opts of Some t \<Rightarrow> t | None \<Rightarrow> DEFAULT_TIMEOUT cfg)\<rparr>"
  obtain r s' where ax: "axios_request axios_default ?o s = (r, s')"
    by (cases "axios_request axios_default ?o s")
  have f: "hostBreakers s' = hostBreakers s" "proxy_breakers s' = proxy_breakers s"
    "next_ident s' = next_ident s" "invocations s' = Suc (invocations s)"
    using axios_request_fields[of axios_default ?o s] ax by simp_all
  show "hostBreakers (snd (direct_attempt cfg opts s)) = hostBreakers s"
    "proxy_breakers (snd (direct_attempt cfg opts s)) = proxy_breakers s"
    "next_ident (snd (direct_attempt cfg opts s)) = next_ident s"
    "invocations (snd (direct_attempt cfg opts s)) = Suc (invocations s)"
    using ax f by (simp_all add: direct_attempt_def split: sum.splits)
qed

lemma direct_attempt_ignores_breakers:
  "direct_attempt cfg opts (s\<lparr>hostBreakers := hb, proxy_breakers := pb\<rparr>) =
     (fst (direct_attempt cfg opts s),
      (snd (direct_attempt cfg opts s))\<lparr>hostBreakers := hb, proxy_breakers := pb\<rparr>)"
  by (simp add: direct_attempt_def axios_request_def transport_def
        split: list.splits outcome.splits)

text \<open>
  C4. A call with no service name and a url that the platform cannot parse as an
  absolute URL is exactly \<open>pRetry\<close> with \<open>DEFAULT_RETRIES\<close> (the count the per-origin
  action uses) around a request on the default axios instance. Both breaker registries
  and the identity allocator are as before the call; the call behaves the same whatever
  the registries hold (they are not read); the transport is invoked at least once and at
  most \<open>DEFAULT_RETRIES + 1\<close> times, exactly that often when the call is rejected.
\<close>

theorem httpRequest_unparsable_url_direct:
  assumes "truthy (serviceName opts) = None" and "truthy (url opts) = Some u"
      and "URL_origin cfg u = None"
  shows "httpRequest cfg opts s
           = pRetry (DEFAULT_RETRIES cfg) (\<lambda>e s. s) (direct_attempt cfg opts) s
       \<and> hostBreakers (snd (httpRequest cfg opts s)) = hostBreakers s
       \<and> proxy_breakers (snd (httpRequest cfg opts s)) = proxy_breakers s
       \<and> next_ident (snd (httpRequest cfg opts s)) = next_ident s
       \<and> httpRequest cfg opts (s\<lparr>hostBreakers := hb, proxy_breakers := pb\<rparr>)
           = (fst (httpRequest cfg opts s),
              (snd (httpRequest cfg opts s))\<lparr>hostBreakers := hb, proxy_breakers := pb\<rparr>)
       \<and> invocations s < invocations (snd (httpRequest cfg opts s))
       \<and> invocations (snd (httpRequest cfg opts s)) \<le> invocations s + DEFAULT_RETRIES cfg + 1
       \<and> (isl (fst (httpRequest cfg opts s)) \<longrightarrow>
            invocations (snd (httpRequest cfg opts s)) = invocations s + DEFAULT_RETRIES cfg + 1)"
proof -
  let ?run = "pRetry (DEFAULT_RETRIES cfg) (\<lambda>e s. s) (direct_attempt cfg opts)"
  have eq: "httpRequest cfg opts t = ?run t" for t
    using assms by (simp add: httpRequest_def getOriginFromUrl_def)
  have hb: "hostBreakers (snd (?run s)) = hostBreakers s"
    by (rule pRetry_preserves[where P = "\<lambda>t. hostBreakers t = hostBreakers s"]) simp_all
  have pb: "proxy_breakers (snd (?run s)) = proxy_breakers s"
    by (rule pRetry_preserves[where P = "\<lambda>t. proxy_breakers t = proxy_breakers s"]) simp_all
  have ni: "next_ident (snd (?run s)) = next_ident s"
    by (rule pRetry_preserves[where P = "\<lambda>t. next_ident t = next_ident s"]) simp_all
  have com: "?run (s\<lparr>hostBreakers := hb, proxy_breakers := pb\<rparr>)
      = (fst (?run s), (snd (?run s))\<lparr>hostBreakers := hb, proxy_breakers := pb\<rparr>)"
    by (rule pRetry_commutes[where U = "\<lambda>t. t\<lparr>hostBreakers := hb, proxy_breakers := pb\<rparr>"])
       (simp_all add: direct_attempt_ignores_breakers)
  have inv: "invocations s < invocations (snd (?run s))
       \<and> invocations (snd (?run s)) \<le> invocations s + DEFAULT_RETRIES cfg + 1
       \<and> (isl (fst (?run s)) \<longrightarrow> invocations (snd (?run s)) = invocations s + DEFAULT_RETRIES cfg + 1)"
    by (rule pRetry_invocations) simp_all
  show ?thesis
    unfolding eq using hb pb ni com inv by simp
qed

lemma relative_no_origin: "plain_origin ''/v1/things'' = None"
  by (simp add: plain_origin_def)

theorem httpRequest_unparsable_url_direct_witness:
  "(case httpRequest default_config relative_call (fresh [] (Reply r500)) of
      (r, s') \<Rightarrow> isl r \<and> invocations s' = 3 \<and> hostBreakers s' = Map.empty
         \<and> proxy_breakers s' = Map.empty \<and> next_ident s' = 0)"
proof -
  let ?s = "fresh [] (Reply r500)"
  have pre: "truthy (serviceName relative_call) = None"
    "truthy (url relative_call) = Some ''/v1/things''"
    "URL_origin default_config ''/v1/things'' = None"
    by (simp_all add: relative_call_def relative_no_origin)
  have rejected: "isl (fst (httpRequest default_config relative_call ?s))"
    by (simp add: httpRequest_def relative_call_def getOriginFromUrl_def relative_no_origin
        numeral_2_eq_2 direct_attempt_def axios_request_def axios_default_def transport_def
        fresh_def r500_def merge_config_def)
  from httpRequest_unparsable_url_direct[OF pre, of ?s Map.empty Map.empty, THEN conjunct2]
    rejected
  have "invocations (snd (httpRequest default_config relative_call ?s)) = invocations ?s + 2 + 1"
    "hostBreakers (snd (httpRequest default_config relative_call ?s)) = hostBreakers ?s"
    "proxy_breakers (snd (httpRequest default_config relative_call ?s)) = proxy_breakers ?s"
    "next_ident (snd (httpRequest default_config relative_call ?s)) = next_ident ?s"
    by simp_all
  moreover obtain r s' where "httpRequest default_config relative_call ?s = (r, s')"
    by (cases "httpRequest default_config relative_call ?s")
  ultimately show ?thesis using rejected
    by (simp add: fresh_def invocations_def)
qed

subsection \<open>Replies below 500\<close>

text \<open>
  C2, at the input where the code departs from it. The call has a relative url and a
  \<open>baseURL\<close>, so its url has no origin and the fallback sends it on the default axios
  instance, which is not configured with \<^verbatim>\<open>validateStatus: () => true\<close>. The remote end
  answers 404 every time. axios rejects the 404, \<open>pRetry\<close> retries it, and the call is
  rejected after three transport invocations.
\<close>

theorem httpRequest_fallback_404:
  "(case httpRequest default_config relative_call (fresh [] (Reply r404)) of
      (r, s') \<Rightarrow>
        r = Inl ((Error ''Request failed with status code 404'')
                  \<lparr>code := Some ''ERR_BAD_REQUEST'', err_response := Some r404\<rparr>)
        \<and> invocations s' = 3)"
  by (simp add: httpRequest_def relative_call_def getOriginFromUrl_def relative_no_origin
        numeral_2_eq_2 direct_attempt_def axios_request_def axios_default_def transport_def
        fresh_def r404_def merge_config_def invocations_def String_nat.simps digit_char_def
        status_error_code_def)

text \<open>
  By absolute URL the claim holds for every reply below 500, whenever the breaker of the
  origin lets the call through: the reply is the result and the transport was invoked
  once.
\<close>

lemma httpRequest_by_origin_below_500:
  assumes mode: "truthy (serviceName opts) = None" "truthy (url opts) = Some u"
      and origin: "URL_origin cfg u = Some origin" "origin \<noteq> []"
      and admitted: "getBreakerStates s origin \<noteq> Some ''open''"
      and insts: "\<forall>i st. hostAxiosInstances s origin = Some i \<longrightarrow> validateStatus i st"
      and reply: "queue s = Reply resp # rest" "status resp < 500"
  shows "\<exists>s'. httpRequest cfg opts s = (Inr resp, s') \<and> invocations s' = invocations s + 1"
proof -
  obtain b s1 where g: "getBreakerForHost cfg origin s = (b, s1)"
    by (cases "getBreakerForHost cfg origin s")
  have b: "circuit_state b \<noteq> OPEN"
    using g admitted
    by (auto simp: getBreakerForHost_def getBreakerStates_def state_name_def new_CircuitBreaker_def
          Let_def split: option.splits if_splits)
  have s1: "queue s1 = map Reply [] @ Reply resp # rest" "invocations s1 = invocations s"
    "\<forall>i st. hostAxiosInstances s1 origin = Some i \<longrightarrow> validateStatus i st"
    using g reply(1) insts
    by (auto simp: getBreakerForHost_def Let_def invocations_def split: option.splits)
  have none: "\<forall>r\<in>set []. 500 \<le> status r" "length ([] :: response list) \<le> DEFAULT_RETRIES cfg"
    by simp_all
  from host_action_retry_then_succeed[OF none(1) reply(2) s1(3) none(2) s1(1), of opts]
  obtain s2 where act: "host_action cfg origin opts s1 = (Inr resp, s2)"
    and i2: "invocations s2 = invocations s1 + 1" by auto
  have go: "getOriginFromUrl cfg u = origin" using origin by (simp add: getOriginFromUrl_def)
  show ?thesis
    using mode go origin(2) g b act i2 s1(2)
    by (cases "circuit_state b")
       (simp_all add: httpRequest_def fire_def Let_def invocations_def logger_def)
qed

text \<open>
  The same 404 on the sibling paths: by absolute URL and by service name it is returned
  as the result after one transport invocation.
\<close>

lemma httpRequest_by_origin_404:
  "(case httpRequest default_config (get_url ''https://api.example.com/v1/things'')
           (fresh [] (Reply r404)) of
      (r, s') \<Rightarrow> r = Inr r404 \<and> invocations s' = 1)"
  by (simp add: httpRequest_def get_url_def getOriginFromUrl_def plain_origin_def authority_def
        getBreakerForHost_def new_CircuitBreaker_def fire_def host_action_def
        getAxiosForHost_def host_attempt_def axios_request_def transport_def merge_config_def
        numeral_2_eq_2 Let_def fresh_def r404_def invocations_def)

lemma httpRequest_by_service_404:
  "(case httpRequest default_config engagement_call (fresh [] (Reply r404)) of
      (r, s') \<Rightarrow> r = Inr r404 \<and> invocations s' = 1)"
  by (simp add: httpRequest_def engagement_call_def proxy_request_def proxy_getBreaker_def
        new_CircuitBreaker_def fire_def proxy_action_def proxy_getAxiosInstance_def
        proxy_attempt_def axios_request_def transport_def merge_config_def
        proxy_maxRetries_def numeral_2_eq_2 Let_def fresh_def r404_def invocations_def)

subsection \<open>The per-target registries\<close>

text \<open>A registry lookup creates at most once: looking up again changes nothing.\<close>

lemma getBreakerForHost_idempotent:
  "getBreakerForHost cfg origin (snd (getBreakerForHost cfg origin s))
     = getBreakerForHost cfg origin s"
  by (simp add: getBreakerForHost_def Let_def split: option.splits)

lemma proxy_getBreaker_idempotent:
  "proxy_getBreaker service (snd (proxy_getBreaker service s)) = proxy_getBreaker service s"
  by (simp add: proxy_getBreaker_def Let_def split: option.splits)


lemma proxy_attempt_fields [simp]:
  "hostBreakers (snd (proxy_attempt inst opts s)) = hostBreakers s"
  "proxy_breakers (snd (proxy_attempt inst opts s)) = proxy_breakers s"
  "next_ident (snd (proxy_attempt inst opts s)) = next_ident s"
proof -
  obtain r s' where ax: "axios_request inst opts s = (r, s')" by (cases "axios_request inst opts s")
  have f: "hostBreakers s' = hostBreakers s" "proxy_breakers s' = proxy_breakers s"
    "next_ident s' = next_ident s"
    using axios_request_fields[of inst opts s] ax by simp_all
  show "hostBreakers (snd (proxy_attempt inst opts s)) = hostBreakers s"
    "proxy_breakers (snd (proxy_attempt inst opts s)) = proxy_breakers s"
    "next_ident (snd (proxy_attempt inst opts s)) = next_ident s"
    using ax f by (simp_all add: proxy_attempt_def split: sum.splits)
qed

lemma proxy_action_registry [simp]:
  "hostBreakers (snd (proxy_action cfg service opts s)) = hostBreakers s"
  "proxy_breakers (snd (proxy_action cfg service opts s)) = proxy_breakers s"
  "next_ident (snd (proxy_action cfg service opts s)) = next_ident s"
proof -
  obtain inst s1 where g: "proxy_getAxiosInstance cfg service s = (inst, s1)"
    by (cases "proxy_getAxiosInstance cfg service s")
  then have s1: "hostBreakers s1 = hostBreakers s" "proxy_breakers s1 = proxy_breakers s"
    "next_ident s1 = next_ident s"
    by (auto simp: proxy_getAxiosInstance_def Let_def split: option.splits)
  let ?run = "pRetry proxy_maxRetries (\<lambda>e. logger Debug ''Request attempt failed'')
           (proxy_attempt inst opts)"
  have "hostBreakers (snd (?run s1)) = hostBreakers s"
    by (rule pRetry_preserves[where P = "\<lambda>t. hostBreakers t = hostBreakers s"]) (simp_all add: s1)
  moreover have "proxy_breakers (snd (?run s1)) = proxy_breakers s"
    by (rule pRetry_preserves[where P = "\<lambda>t. proxy_breakers t = proxy_breakers s"]) (simp_all add: s1)
  moreover have "next_ident (snd (?run s1)) = next_ident s"
    by (rule pRetry_preserves[where P = "\<lambda>t. next_ident t = next_ident s"]) (simp_all add: s1)
  ultimately show "hostBreakers (snd (proxy_action cfg service opts s)) = hostBreakers s"
  "proxy_breakers (snd (proxy_action cfg service opts s)) = proxy_breakers s"
  "next_ident (snd (proxy_action cfg service opts s)) = next_ident s"
    using g by (simp_all add: proxy_action_def)
qed

lemma fold_proxy_listener_fields [simp]:
  "hostBreakers (fold proxy_listener evs s) = hostBreakers s
   \<and> proxy_breakers (fold proxy_listener evs s) = proxy_breakers s
   \<and> next_ident (fold proxy_listener evs s) = next_ident s"
proof (induction evs arbitrary: s)
  case Nil
  show ?case by simp
next
  case (Cons ev evs)
  have "hostBreakers (proxy_listener ev s) = hostBreakers s
      \<and> proxy_breakers (proxy_listener ev s) = proxy_breakers s
      \<and> next_ident (proxy_listener ev s) = next_ident s"
    by (cases ev) simp_all
  with Cons.IH[of "proxy_listener ev s"] show ?case by simp
qed








lemma proxy_attempt_invocations [simp]:
  "invocations (snd (proxy_attempt inst opts s)) = Suc (invocations s)"
proof -
  obtain r s' where ax: "axios_request inst opts s = (r, s')" by (cases "axios_request inst opts s")
  with axios_request_fields(6)[of inst opts s] have "invocations s' = Suc (invocations s)" by simp
  with ax show ?thesis by (simp add: proxy_attempt_def split: sum.splits)
qed


lemma fold_proxy_listener_invocations [simp]:
  "invocations (fold proxy_listener evs s) = invocations s"
proof (induction evs arbitrary: s)
  case Nil
  show ?case by simp
next
  case (Cons ev evs)
  have "invocations (proxy_listener ev s) = invocations s" by (cases ev) simp_all
  with Cons.IH[of "proxy_listener ev s"] show ?case by simp
qed



text \<open>Unfolding a whole call on a concrete state.\<close>

lemmas run_simps =
  httpRequest_def getOriginFromUrl_def plain_origin_def authority_def
  getBreakerForHost_def new_CircuitBreaker_def fire_def host_action_def getAxiosForHost_def
  host_attempt_def axios_request_def transport_def merge_config_def HTTP_error_def
  logger_def Let_def numeral_2_eq_2 getBreakerStates_def state_name_def
  proxy_request_def proxy_getBreaker_def proxy_action_def proxy_getAxiosInstance_def
  proxy_attempt_def proxy_maxRetries_def proxy_errorThresholdPercentage_def
  EOPENBREAKER_def Error_def circuit_open_error_def









subsection \<open>The observability accessor\<close>

text \<open>
  C9 as stated fails: after a successful call by service name the \<open>ProxyClient\<close> holds a
  breaker for \<^verbatim>\<open>engagement\<close>, a known target whose breaker pipeline has been created, and
  the snapshot of \<open>getBreakerStates\<close> has no entry for it (it is empty).
\<close>

theorem getBreakerStates_omits_services:
  "(case httpRequest default_config engagement_call (fresh [] (Reply r200)) of
      (r, s') \<Rightarrow> r = Inr r200
          \<and> map_option state_name (proxy_breakers s' ''engagement'') = Some ''closed''
          \<and> getBreakerStates s' ''engagement'' = None
          \<and> getBreakerStates s' = Map.empty)"
  by (simp add: run_simps engagement_call_def fresh_def r200_def)

text \<open>
  C9, amended. \<open>getBreakerStates\<close> maps each URL origin for which a per-origin breaker
  has been created, and nothing else, to the state of that breaker, one of
  \<^verbatim>\<open>closed\<close>, \<^verbatim>\<open>open\<close> and \<^verbatim>\<open>halfOpen\<close>; the breakers the \<open>ProxyClient\<close> keeps for
  service names do not enter the snapshot.
\<close>

theorem getBreakerStates_origins:
  "getBreakerStates s origin =
     (case hostBreakers s origin of
        None \<Rightarrow> None
      | Some b \<Rightarrow> Some (case circuit_state b of
                         CLOSED \<Rightarrow> ''closed'' | OPEN \<Rightarrow> ''open'' | HALF_OPEN \<Rightarrow> ''halfOpen''))
   \<and> dom (getBreakerStates s) = dom (hostBreakers s)
   \<and> ran (getBreakerStates s) \<subseteq> {''closed'', ''open'', ''halfOpen''}
   \<and> getBreakerStates (s\<lparr>proxy_breakers := pb\<rparr>) = getBreakerStates s"
proof -
  have 1: "getBreakerStates s origin =
     (case hostBreakers s origin of
        None \<Rightarrow> None
      | Some b \<Rightarrow> Some (case circuit_state b of
                         CLOSED \<Rightarrow> ''closed'' | OPEN \<Rightarrow> ''open'' | HALF_OPEN \<Rightarrow> ''halfOpen''))"
    by (simp add: getBreakerStates_def state_name_def split: option.splits circuit.splits)
  have 2: "dom (getBreakerStates s) = dom (hostBreakers s)"
    by (auto simp: getBreakerStates_def dom_def)
  have 3: "ran (getBreakerStates s) \<subseteq> {''closed'', ''open'', ''halfOpen''}"
    by (auto simp: getBreakerStates_def ran_def state_name_def)
  have 4: "getBreakerStates (s\<lparr>proxy_breakers := pb\<rparr>) = getBreakerStates s"
    by (simp add: getBreakerStates_def)
  from 1 2 3 4 show ?thesis by blast
qed

section \<open>Properties of the cache service\<close>

lemma cache_get_never_raises: "\<exists>v s'. cache_get codec key s = (Inr v, s')"
  by (cases "get_try codec key s") (auto simp: cache_get_def split: sum.splits)

lemma cache_set_never_raises: "\<exists>s'. cache_set codec key v ttl s = (Inr (), s')"
  by (cases "set_try codec key v ttl s") (auto simp: cache_set_def split: sum.splits)

lemma cache_del_never_raises: "\<exists>s'. cache_del key s = (Inr (), s')"
  by (cases "del_try key s") (auto simp: cache_del_def split: sum.splits)

lemma cache_get_unavailable:
  assumes "unavailable s"
  shows "\<exists>l m. cache_get codec key s = (Inr None, cache_logger l m s)"
  using assms by (auto simp: unavailable_def cache_get_def get_try_def)

lemma cache_set_unavailable:
  assumes "unavailable s"
  shows "\<exists>l m. cache_set codec key v ttl s = (Inr (), cache_logger l m s)"
  using assms by (auto simp: unavailable_def cache_set_def set_try_def)

lemma cache_del_unavailable:
  assumes "unavailable s"
  shows "cache_del key s = (Inr (), s) \<or> (\<exists>l m. cache_del key s = (Inr (), cache_logger l m s))"
  using assms by (auto simp: unavailable_def cache_del_def del_try_def)

lemma cache_logger_backend [simp]:
  "commands (cache_logger l m s) = commands s"
  "stored (cache_logger l m s) = stored s"
  "faults (cache_logger l m s) = faults s"
  "cache_breaker (cache_logger l m s) = cache_breaker s"
  "isConnected (cache_logger l m s) = isConnected s"
  by (simp_all add: cache_logger_def)

lemma get_exec_fault:
  assumes "faults s = True # rest"
  shows "\<exists>e s'. get_exec codec key s = (Inl e, s') \<and> commands s' = commands s @ [GET key]"
  using assms by (simp add: get_exec_def client_get_def redis_send_def)

lemma through_breaker_failure:
  assumes "exec s = (Inl e, s')"
  shows "\<exists>e' s''. through_breaker breaker exec s = (Inl e', s'')"
  using assms
  by (cases breaker) (auto simp: through_breaker_def fire_def Let_def)

text \<open>
  C5. For every key, value, ttl and state of the service, \<open>get\<close>, \<open>set\<close> and \<open>del\<close>
  return normally (never a rejection). When the connection is down, the client is
  missing or the breaker is open, \<open>get\<close> returns absent and none of the three sends a
  command to the backend or changes what it stores. When the backend is used and its
  next command fails, \<open>get\<close> still returns absent.
\<close>

theorem cache_fail_as_miss:
  "(\<exists>r s'. cache_get codec key s = (Inr r, s'))
   \<and> (\<exists>s'. cache_set codec key v ttl s = (Inr (), s'))
   \<and> (\<exists>s'. cache_del key s = (Inr (), s'))
   \<and> (unavailable s \<longrightarrow>
         fst (cache_get codec key s) = Inr None
       \<and> untouched s (snd (cache_get codec key s))
       \<and> untouched s (snd (cache_set codec key v ttl s))
       \<and> untouched s (snd (cache_del key s)))
   \<and> (\<not> unavailable s \<and> faults s = True # rest \<longrightarrow> fst (cache_get codec key s) = Inr None)"
proof (intro conjI impI)
  show "\<exists>r s'. cache_get codec key s = (Inr r, s')" by (rule cache_get_never_raises)
  show "\<exists>s'. cache_set codec key v ttl s = (Inr (), s')" by (rule cache_set_never_raises)
  show "\<exists>s'. cache_del key s = (Inr (), s')" by (rule cache_del_never_raises)
next
  assume u: "unavailable s"
  from cache_get_unavailable[OF u, of codec key]
  show "fst (cache_get codec key s) = Inr None" by auto
  from cache_get_unavailable[OF u, of codec key]
  show "untouched s (snd (cache_get codec key s))" by (auto simp: untouched_def)
  from cache_set_unavailable[OF u, of codec key v ttl]
  show "untouched s (snd (cache_set codec key v ttl s))" by (auto simp: untouched_def)
  from cache_del_unavailable[OF u, of key]
  show "untouched s (snd (cache_del key s))" by (auto simp: untouched_def)
next
  assume a: "\<not> unavailable s \<and> faults s = True # rest"
  then have f: "faults s = True # rest" and av: "\<not> unavailable s" by simp_all
  from get_exec_fault[OF f, of codec key] obtain e s1 where "get_exec codec key s = (Inl e, s1)"
    by blast
  from through_breaker_failure[of "get_exec codec key" s e s1 "cache_breaker s", OF this]
  obtain e' s2 where "through_breaker (cache_breaker s) (get_exec codec key) s = (Inl e', s2)"
    by blast
  with av show "fst (cache_get codec key s) = Inr None"
    by (simp add: cache_get_def get_try_def unavailable_def)
qed

text \<open>
  An open breaker and a closed connection at a concrete cache, against a hit on the same
  cache when the backend is available and a miss when its command fails.
\<close>

lemmas cache_run =
  cache_get_def get_try_def cache_set_def set_try_def cache_del_def del_try_def
  through_breaker_def fire_def get_exec_def set_exec_def client_get_def client_setEx_def
  client_del_def redis_send_def breaker_opened_def cache_logger_def cache_with_def
  new_CircuitBreaker_def plain_codec_def quoted_def Let_def

theorem cache_fail_as_miss_witness:
  "fst (cache_get plain_codec ''user:42:preferences'' (cache_with OPEN True)) = Inr None
   \<and> commands (snd (cache_get plain_codec ''user:42:preferences'' (cache_with OPEN True))) = []
   \<and> fst (cache_set plain_codec ''user:42:preferences'' ''light'' 3600 (cache_with OPEN True)) = Inr ()
   \<and> commands (snd (cache_set plain_codec ''user:42:preferences'' ''light'' 3600 (cache_with OPEN True))) = []
   \<and> commands (snd (cache_del ''user:42:preferences'' (cache_with CLOSED False))) = []
   \<and> fst (cache_get plain_codec ''user:42:preferences'' (cache_with CLOSED True)) = Inr (Some ''dark'')
   \<and> commands (snd (cache_get plain_codec ''user:42:preferences'' (cache_with CLOSED True)))
        = [GET ''user:42:preferences'']
   \<and> fst (cache_get plain_codec ''user:42:preferences'' ((cache_with CLOSED True)\<lparr>faults := [True]\<rparr>)) = Inr None"
proof -
  have u: "unavailable (cache_with OPEN True)" "unavailable (cache_with CLOSED False)"
    by (simp_all add: unavailable_def cache_with_def breaker_opened_def new_CircuitBreaker_def)
  have av: "\<not> unavailable ((cache_with CLOSED True)\<lparr>faults := [True]\<rparr>)
      \<and> faults ((cache_with CLOSED True)\<lparr>faults := [True]\<rparr>) = True # []"
    by (simp add: unavailable_def cache_with_def breaker_opened_def new_CircuitBreaker_def)
  note open_case = cache_fail_as_miss[of plain_codec "''user:42:preferences''" "cache_with OPEN True"
      "''light''" 3600 "[]"]
  note down_case = cache_fail_as_miss[of plain_codec "''user:42:preferences''" "cache_with CLOSED False"
      "''light''" 3600 "[]"]
  note fault_case = cache_fail_as_miss[of plain_codec "''user:42:preferences''"
      "(cache_with CLOSED True)\<lparr>faults := [True]\<rparr>" "''light''" 3600 "[]"]
  have 1: "fst (cache_get plain_codec ''user:42:preferences'' (cache_with OPEN True)) = Inr None"
    "commands (snd (cache_get plain_codec ''user:42:preferences'' (cache_with OPEN True))) = []"
    "commands (snd (cache_set plain_codec ''user:42:preferences'' ''light'' 3600 (cache_with OPEN True))) = []"
    using open_case u(1) by (auto simp: untouched_def cache_with_def)
  have 2: "fst (cache_set plain_codec ''user:42:preferences'' ''light'' 3600 (cache_with OPEN True)) = Inr ()"
    using open_case by auto
  have 3: "commands (snd (cache_del ''user:42:preferences'' (cache_with CLOSED False))) = []"
    using down_case u(2) by (auto simp: untouched_def cache_with_def)
  have 4: "fst (cache_get plain_codec ''user:42:preferences'' (cache_with CLOSED True)) = Inr (Some ''dark'')"
    "commands (snd (cache_get plain_codec ''user:42:preferences'' (cache_with CLOSED True)))
        = [GET ''user:42:preferences'']"
    by (simp_all add: cache_run)
  have 5: "fst (cache_get plain_codec ''user:42:preferences'' ((cache_with CLOSED True)\<lparr>faults := [True]\<rparr>)) = Inr None"
    using fault_case av by blast
  from 1 2 3 4 5 show ?thesis by simp
qed

section \<open>Properties of the rate-limit middlewares\<close>

lemma startsWith_iff: "startsWith s prefix \<longleftrightarrow> (\<exists>post. s = prefix @ post)"
proof
  assume "startsWith s prefix"
  then have "s = prefix @ drop (length prefix) s"
    by (metis append_take_drop_id startsWith_def)
  then show "\<exists>post. s = prefix @ post" ..
next
  assume "\<exists>post. s = prefix @ post"
  then show "startsWith s prefix" by (auto simp: startsWith_def)
qed

lemma str_includes_iff: "str_includes s sub \<longleftrightarrow> (\<exists>pre post. s = pre @ sub @ post)"
proof (induction s)
  case Nil
  show ?case by auto
next
  case (Cons c cs)
  show ?case
  proof
    assume "str_includes (c # cs) sub"
    then consider "startsWith (c # cs) sub" | "str_includes cs sub" by auto
    then show "\<exists>pre post. c # cs = pre @ sub @ post"
    proof cases
      case 1
      then obtain post where "c # cs = sub @ post" unfolding startsWith_iff ..
      then have "c # cs = [] @ sub @ post" by simp
      then show ?thesis by blast
    next
      case 2
      with Cons.IH obtain pre post where "cs = pre @ sub @ post" by blast
      then have "c # cs = (c # pre) @ sub @ post" by simp
      then show ?thesis by blast
    qed
  next
    assume "\<exists>pre post. c # cs = pre @ sub @ post"
    then obtain pre post where eq: "c # cs = pre @ sub @ post" by blast
    show "str_includes (c # cs) sub"
    proof (cases pre)
      case Nil
      with eq have "startsWith (c # cs) sub" unfolding startsWith_iff by auto
      then show ?thesis by simp
    next
      case (Cons p pre')
      with eq have "cs = pre' @ sub @ post" by simp
      with Cons.IH have "str_includes cs sub" by blast
      then show ?thesis by simp
    qed
  qed
qed

lemma googlebot_is_bot: "isBotUserAgent (googlebot path)"
  by (simp add: isBotUserAgent_def googlebot_def toLowerCase_def lower_char_def startsWith_def)

lemma browser_is_no_bot: "\<not> isBotUserAgent (browser path)"
  by (simp add: isBotUserAgent_def browser_def toLowerCase_def lower_char_def startsWith_def)

subsection \<open>Exemptions and bots\<close>

text \<open>
  C7 as stated fails: in production a crawler's request to \<^verbatim>\<open>/api/auth/login\<close> has a
  bot-like User-Agent and is passed to the next handler, not rejected. The exemptions are
  checked before the User-Agent.
\<close>

theorem rateBot_bot_on_auth_path:
  "isBotUserAgent (googlebot ''/api/auth/login'')
   \<and> rateBot production (googlebot ''/api/auth/login'') no_requests_yet = (Next, no_requests_yet)"
  by (simp add: googlebot_is_bot) (simp add: rateBot_def production_def googlebot_def startsWith_def)

text \<open>
  C7, amended. A request outside production or to a path starting with \<^verbatim>\<open>/api/auth\<close>
  bypasses \<open>rateBot\<close> entirely, bot or not: it goes to the next handler and nothing of the
  limiter's state changes. Every other request whose User-Agent is bot-like is answered
  403 with the limiters untouched, whatever the state of Redis and of the counters.
  Bot-like means that the lower-cased User-Agent contains \<^verbatim>\<open>bot\<close>, \<^verbatim>\<open>crawler\<close> or
  \<^verbatim>\<open>spider\<close>.
\<close>

theorem rateBot_exemptions_then_bots:
  "(process_env out ''NODE_ENV'' \<noteq> Some ''production'' \<or> startsWith (req_path req) ''/api/auth''
      \<longrightarrow> rateBot out req s = (Next, s))
   \<and> (process_env out ''NODE_ENV'' = Some ''production''
        \<and> \<not> startsWith (req_path req) ''/api/auth'' \<and> isBotUserAgent req
      \<longrightarrow> rateBot out req s = (Sent bot_reply, s))
   \<and> (isBotUserAgent req \<longleftrightarrow>
        (\<exists>w \<in> {''bot'', ''crawler'', ''spider''}. \<exists>pre post. user_agent_text req = pre @ w @ post))"
proof (intro conjI impI)
  assume "process_env out ''NODE_ENV'' \<noteq> Some ''production'' \<or> startsWith (req_path req) ''/api/auth''"
  then show "rateBot out req s = (Next, s)" by (auto simp: rateBot_def)
next
  assume "process_env out ''NODE_ENV'' = Some ''production''
        \<and> \<not> startsWith (req_path req) ''/api/auth'' \<and> isBotUserAgent req"
  then show "rateBot out req s = (Sent bot_reply, s)" by (simp add: rateBot_def)
next
  show "isBotUserAgent req \<longleftrightarrow>
        (\<exists>w \<in> {''bot'', ''crawler'', ''spider''}. \<exists>pre post. user_agent_text req = pre @ w @ post)"
    unfolding isBotUserAgent_def user_agent_text_def Let_def str_includes_iff by blast
qed

theorem rateBot_exemptions_then_bots_witness:
  "rateBot production (googlebot ''/api/tasks'') no_requests_yet = (Sent bot_reply, no_requests_yet)
   \<and> rateBot (production\<lparr>process_env := [''NODE_ENV'' \<mapsto> ''development'']\<rparr>)
        (googlebot ''/api/tasks'') no_requests_yet = (Next, no_requests_yet)
   \<and> rateBot production (browser ''/api/auth/login'') no_requests_yet = (Next, no_requests_yet)"
proof -
  have a: "process_env production ''NODE_ENV'' = Some ''production''
        \<and> \<not> startsWith (req_path (googlebot ''/api/tasks'')) ''/api/auth''
        \<and> isBotUserAgent (googlebot ''/api/tasks'')"
    by (simp add: googlebot_is_bot) (simp add: production_def googlebot_def startsWith_def)
  have b: "process_env (production\<lparr>process_env := [''NODE_ENV'' \<mapsto> ''development'']\<rparr>) ''NODE_ENV''
             \<noteq> Some ''production''"
    by simp
  have c: "startsWith (req_path (browser ''/api/auth/login'')) ''/api/auth''"
    by (simp add: browser_def startsWith_def)
  from rateBot_exemptions_then_bots[of production "googlebot ''/api/tasks''" no_requests_yet] a
  have 1: "rateBot production (googlebot ''/api/tasks'') no_requests_yet = (Sent bot_reply, no_requests_yet)"
    by blast
  from rateBot_exemptions_then_bots[of "production\<lparr>process_env := [''NODE_ENV'' \<mapsto> ''development'']\<rparr>"
      "googlebot ''/api/tasks''" no_requests_yet] b
  have 2: "rateBot (production\<lparr>process_env := [''NODE_ENV'' \<mapsto> ''development'']\<rparr>)
        (googlebot ''/api/tasks'') no_requests_yet = (Next, no_requests_yet)"
    by blast
  from rateBot_exemptions_then_bots[of production "browser ''/api/auth/login''" no_requests_yet] c
  have 3: "rateBot production (browser ''/api/auth/login'') no_requests_yet = (Next, no_requests_yet)"
    by blast
  from 1 2 3 show ?thesis by simp
qed

subsection \<open>Redis unreachable\<close>

text \<open>
  C6 as stated fails: there is no fail-closed setting. With the Redis connection failed
  and an environment that asks for fail-closed under the names an operator would try,
  both middlewares still log the warning and call the next handler; and no surroundings
  at all make either middleware answer a request with 503 while Redis is down.
\<close>

theorem fail_closed_not_selectable:
  "rateBot redis_down (browser ''/api/tasks'') no_requests_yet =
     (Next, no_requests_yet\<lparr>console := [(Warn, ''[rate-limit] Redis unavailable; failing open'')]\<rparr>)
   \<and> perEndpointLimiter redis_down (browser ''/api/users/42'') no_endpoint_requests_yet =
     (Next, no_endpoint_requests_yet
        \<lparr>endpoint_console := [(Warn, ''[rate-limit] Redis not available; failing open'')]\<rparr>)
   \<and> \<not> (\<exists>out req s rep. \<not> redisReady out \<and> fst (rateBot out req s) = Sent rep
            \<and> reply_status rep = 503)
   \<and> \<not> (\<exists>out req e rep. \<not> redisReady out \<and> fst (perEndpointLimiter out req e) = Sent rep)"
proof -
  have nb: "\<not> isBotUserAgent (browser ''/api/tasks'')" by (rule browser_is_no_bot)
  have 1: "rateBot redis_down (browser ''/api/tasks'') no_requests_yet =
     (Next, no_requests_yet\<lparr>console := [(Warn, ''[rate-limit] Redis unavailable; failing open'')]\<rparr>)"
    using nb
    by (simp add: rateBot_def redis_down_def startsWith_def console_log_def no_requests_yet_def)
       (simp add: browser_def)
  have 2: "perEndpointLimiter redis_down (browser ''/api/users/42'') no_endpoint_requests_yet =
     (Next, no_endpoint_requests_yet
        \<lparr>endpoint_console := [(Warn, ''[rate-limit] Redis not available; failing open'')]\<rparr>)"
    by (simp add: perEndpointLimiter_def getLimiterForPath_def endpointRules_def startsWith_def
          browser_def redis_down_def endpoint_log_def no_endpoint_requests_yet_def)
  have 3: "\<not> (\<exists>out req s rep. \<not> redisReady out \<and> fst (rateBot out req s) = Sent rep
            \<and> reply_status rep = 503)"
    by (auto simp: rateBot_def bot_reply_def split: if_splits)
  have 4: "\<not> (\<exists>out req e rep. \<not> redisReady out
            \<and> fst (perEndpointLimiter out req e) = Sent rep)"
    by (auto simp: perEndpointLimiter_def split: option.splits)
  from 1 2 3 4 show ?thesis by simp
qed

text \<open>
  C6, amended. The policy is fixed: when the Redis connection has failed, \<open>rateBot\<close> (for
  a request that is neither exempt nor a bot) and \<open>perEndpointLimiter\<close> (for a path with
  a rule) log a warning and pass the request to the next handler, for every
  environment; no request is rejected for the outage (the only reply \<open>rateBot\<close> can
  still send is the bot rejection).
\<close>

theorem rate_limit_fails_open:
  assumes "\<not> redisReady out"
  shows "(process_env out ''NODE_ENV'' = Some ''production''
            \<and> \<not> startsWith (req_path req) ''/api/auth'' \<and> \<not> isBotUserAgent req
          \<longrightarrow> rateBot out req s =
                (Next, console_log Warn ''[rate-limit] Redis unavailable; failing open'' s))
       \<and> (getLimiterForPath (req_path req) \<noteq> None
          \<longrightarrow> perEndpointLimiter out req e =
                (Next, endpoint_log Warn ''[rate-limit] Redis not available; failing open'' e))
       \<and> (fst (rateBot out req s) = Next \<or> fst (rateBot out req s) = Sent bot_reply)
       \<and> fst (perEndpointLimiter out req e) = Next"
proof (intro conjI impI)
  assume "process_env out ''NODE_ENV'' = Some ''production''
            \<and> \<not> startsWith (req_path req) ''/api/auth'' \<and> \<not> isBotUserAgent req"
  with assms show "rateBot out req s =
                (Next, console_log Warn ''[rate-limit] Redis unavailable; failing open'' s)"
    by (simp add: rateBot_def)
next
  assume "getLimiterForPath (req_path req) \<noteq> None"
  with assms show "perEndpointLimiter out req e =
                (Next, endpoint_log Warn ''[rate-limit] Redis not available; failing open'' e)"
    by (auto simp: perEndpointLimiter_def)
next
  from assms show "fst (rateBot out req s) = Next \<or> fst (rateBot out req s) = Sent bot_reply"
    by (simp add: rateBot_def)
next
  from assms show "fst (perEndpointLimiter out req e) = Next"
    by (simp add: perEndpointLimiter_def split: option.splits)
qed

theorem rate_limit_fails_open_witness:
  "rateBot (production\<lparr>redisReady := False\<rparr>) (browser ''/api/users/42'') no_requests_yet =
     (Next, no_requests_yet\<lparr>console := [(Warn, ''[rate-limit] Redis unavailable; failing open'')]\<rparr>)
   \<and> perEndpointLimiter (production\<lparr>redisReady := False\<rparr>) (browser ''/api/users/42'')
        no_endpoint_requests_yet =
     (Next, no_endpoint_requests_yet
        \<lparr>endpoint_console := [(Warn, ''[rate-limit] Redis not available; failing open'')]\<rparr>)"
proof -
  let ?out = "production\<lparr>redisReady := False\<rparr>"
  let ?req = "browser ''/api/users/42''"
  have down: "\<not> redisReady ?out" by simp
  have a: "process_env ?out ''NODE_ENV'' = Some ''production''
            \<and> \<not> startsWith (req_path ?req) ''/api/auth'' \<and> \<not> isBotUserAgent ?req"
    by (simp add: browser_is_no_bot) (simp add: production_def browser_def startsWith_def)
  have b: "getLimiterForPath (req_path ?req) \<noteq> None"
    by (simp add: getLimiterForPath_def endpointRules_def startsWith_def browser_def)
  from rate_limit_fails_open[OF down, where req = ?req and s = no_requests_yet
      and e = no_endpoint_requests_yet] a b
  have "rateBot ?out ?req no_requests_yet =
          (Next, console_log Warn ''[rate-limit] Redis unavailable; failing open'' no_requests_yet)"
    and "perEndpointLimiter ?out ?req no_endpoint_requests_yet =
          (Next, endpoint_log Warn ''[rate-limit] Redis not available; failing open''
                   no_endpoint_requests_yet)"
    by blast+
  then show ?thesis
    by (simp add: console_log_def endpoint_log_def no_requests_yet_def
          no_endpoint_requests_yet_def)
qed

subsection \<open>Quota exceeded\<close>

lemma consume_rejected:
  assumes "consume opt key t cs = (RateLimiterRes ms, cs')" and "0 < duration opt"
  shows "\<exists>used resets. cs' key = Some (used, resets) \<and> points opt < used \<and> t < resets
            \<and> ms = resets - t"
  using assms
  by (auto simp: consume_def Let_def split: option.splits if_splits prod.splits)

text \<open>The in-memory limiter has no store to fail.\<close>

lemma consume_store_ok: "fst (consume opt key t cs) \<noteq> StoreError e"
  by (auto simp: consume_def Let_def split: option.splits if_splits prod.splits)

lemma ceil_seconds_positive: "0 < ms \<Longrightarrow> 0 < Math_ceil_seconds ms"
  by (simp add: Math_ceil_seconds_def)

lemma ceil_seconds_ceiling: "int (Math_ceil_seconds ms) = \<lceil>real ms / 1000\<rceil>"
proof -
  have "\<lceil>real ms / 1000\<rceil> = - \<lfloor>- (real ms / 1000)\<rfloor>" by (simp add: ceiling_def)
  also have "- (real ms / 1000) = real_of_int (- int ms) / real_of_int 1000" by simp
  also have "\<lfloor>real_of_int (- int ms) / real_of_int 1000\<rfloor> = (- int ms) div 1000"
    by (rule floor_divide_of_int_eq)
  also have "- ((- int ms) div 1000) = int ((ms + 999) div 1000)"
    by (simp add: zdiv_int)
  finally show ?thesis by (simp add: Math_ceil_seconds_def)
qed

lemma redis_consume_rejected:
  assumes "redis_consume fails opt key t cs = (RateLimiterRes ms, cs')" and "0 < duration opt"
  shows "\<exists>used resets. cs' key = Some (used, resets) \<and> points opt < used \<and> t < resets
            \<and> ms = resets - t"
  using assms consume_rejected[of opt key t cs ms cs']
  by (auto simp: redis_consume_def split: if_splits)

lemma rateBot_replies:
  assumes "rateBot out req s = (Sent rep, s')" and "rep \<noteq> bot_reply"
  shows "\<exists>used resets.
           (rateLimiterRedis s' (getKey req) = Some (used, resets) \<and> points rl_main < used
            \<or> tokenBucketLimiter s' (getKey req) = Some (used, resets) \<and> points rl_burst < used)
           \<and> now out < resets \<and> rep = too_many (resets - now out)"
proof -
  let ?key = "getKey req"
  obtain r1 main' where m: "redis_consume (storeFails out) rl_main ?key (now out) (rateLimiterRedis s) = (r1, main')"
    by (cases "redis_consume (storeFails out) rl_main ?key (now out) (rateLimiterRedis s)")
  obtain r2 burst' where b: "consume rl_burst ?key (now out) (tokenBucketLimiter s) = (r2, burst')"
    by (cases "consume rl_burst ?key (now out) (tokenBucketLimiter s)")
  from assms m b consider
      (main) ms where "r1 = RateLimiterRes ms" "rep = too_many ms" "s' = s\<lparr>rateLimiterRedis := main'\<rparr>"
    | (burst) ms where "r1 = Resolved" "r2 = RateLimiterRes ms" "rep = too_many ms"
        "s' = s\<lparr>rateLimiterRedis := main', tokenBucketLimiter := burst'\<rparr>"
    by (auto simp: rateBot_def Let_def split: if_splits consumed.splits)
  then show ?thesis
  proof cases
    case main
    from redis_consume_rejected[OF m[unfolded main(1)]]
    obtain used resets where "main' ?key = Some (used, resets)" "points rl_main < used"
      "now out < resets" "ms = resets - now out" by (auto simp: rl_main_def)
    with main show ?thesis by auto
  next
    case burst
    from consume_rejected[OF b[unfolded burst(2)]]
    obtain used resets where "burst' ?key = Some (used, resets)" "points rl_burst < used"
      "now out < resets" "ms = resets - now out" by (auto simp: rl_burst_def)
    with burst show ?thesis by auto
  qed
qed

lemma perEndpointLimiter_replies:
  assumes "perEndpointLimiter out req e = (Sent rep, e')"
  shows "\<exists>limiter used resets. getLimiterForPath (req_path req) = Some limiter
          \<and> limiters e' limiter (getRateLimitKey req) = Some (used, resets)
          \<and> points (endpoint_opts limiter) < used \<and> now out < resets
          \<and> rep = endpoint_exceeded (resets - now out)"
proof -
  from assms obtain limiter where l: "getLimiterForPath (req_path req) = Some limiter"
    by (auto simp: perEndpointLimiter_def split: option.splits)
  let ?key = "getRateLimitKey req"
  obtain r cs' where c: "redis_consume (storeFails out) (endpoint_opts limiter) ?key (now out)
                   (limiters e limiter) = (r, cs')"
    by (cases "redis_consume (storeFails out) (endpoint_opts limiter) ?key (now out)
                   (limiters e limiter)")
  from assms l c obtain ms where r: "r = RateLimiterRes ms" and rep: "rep = endpoint_exceeded ms"
    and e': "e' = e\<lparr>limiters := (limiters e)(limiter := cs')\<rparr>"
    by (auto simp: perEndpointLimiter_def Let_def split: if_splits consumed.splits)
  have d: "0 < duration (endpoint_opts limiter)" by (cases limiter) simp_all
  from redis_consume_rejected[OF c[unfolded r] d]
  obtain used resets where "cs' ?key = Some (used, resets)" "points (endpoint_opts limiter) < used"
      "now out < resets" "ms = resets - now out" by auto
  with l rep e' show ?thesis by auto
qed

text \<open>The consume beyond the quota is rejected, a consume within it is resolved.\<close>

lemma consume_spent:
  assumes "spent opt cs key t"
  shows "fst (consume opt key t cs) = RateLimiterRes (msBeforeNext opt cs key t)"
    and "0 < msBeforeNext opt cs key t"
  using assms
  by (auto simp: spent_def msBeforeNext_def consume_def Let_def split: option.splits)

lemma consume_not_spent:
  assumes "\<not> spent opt cs key t" and "0 < points opt"
  shows "fst (consume opt key t cs) = Resolved"
  using assms
  by (auto simp: spent_def consume_def Let_def split: option.splits)

lemma rateBot_main_spent:
  assumes "reaches_limiters out req"
      and "spent rl_main (rateLimiterRedis s) (getKey req) (now out)"
  shows "fst (rateBot out req s)
           = Sent (too_many (msBeforeNext rl_main (rateLimiterRedis s) (getKey req) (now out)))"
proof -
  obtain r main' where c: "consume rl_main (getKey req) (now out) (rateLimiterRedis s) = (r, main')"
    by (cases "consume rl_main (getKey req) (now out) (rateLimiterRedis s)")
  with consume_spent(1)[OF assms(2)]
  have "r = RateLimiterRes (msBeforeNext rl_main (rateLimiterRedis s) (getKey req) (now out))"
    by simp
  with c assms(1) show ?thesis
    by (simp add: rateBot_def reaches_limiters_def redis_consume_def Let_def)
qed

lemma rateBot_burst_spent:
  assumes "reaches_limiters out req"
      and "\<not> spent rl_main (rateLimiterRedis s) (getKey req) (now out)"
      and "spent rl_burst (tokenBucketLimiter s) (getKey req) (now out)"
  shows "fst (rateBot out req s)
           = Sent (too_many (msBeforeNext rl_burst (tokenBucketLimiter s) (getKey req) (now out)))"
proof -
  obtain r main' where c: "consume rl_main (getKey req) (now out) (rateLimiterRedis s) = (r, main')"
    by (cases "consume rl_main (getKey req) (now out) (rateLimiterRedis s)")
  with consume_not_spent[OF assms(2)] have r: "r = Resolved" by (simp add: rl_main_def)
  obtain r2 burst' where
    c2: "consume rl_burst (getKey req) (now out) (tokenBucketLimiter s) = (r2, burst')"
    by (cases "consume rl_burst (getKey req) (now out) (tokenBucketLimiter s)")
  with consume_spent(1)[OF assms(3)]
  have "r2 = RateLimiterRes (msBeforeNext rl_burst (tokenBucketLimiter s) (getKey req) (now out))"
    by simp
  with c r c2 assms(1) show ?thesis
    by (simp add: rateBot_def reaches_limiters_def redis_consume_def Let_def)
qed

lemma rateBot_within_quota:
  assumes "reaches_limiters out req"
      and "\<not> spent rl_main (rateLimiterRedis s) (getKey req) (now out)"
      and "\<not> spent rl_burst (tokenBucketLimiter s) (getKey req) (now out)"
  shows "fst (rateBot out req s) = Next"
proof -
  obtain r main' where c: "consume rl_main (getKey req) (now out) (rateLimiterRedis s) = (r, main')"
    by (cases "consume rl_main (getKey req) (now out) (rateLimiterRedis s)")
  with consume_not_spent[OF assms(2)] have r: "r = Resolved" by (simp add: rl_main_def)
  obtain r2 burst' where
    c2: "consume rl_burst (getKey req) (now out) (tokenBucketLimiter s) = (r2, burst')"
    by (cases "consume rl_burst (getKey req) (now out) (tokenBucketLimiter s)")
  with consume_not_spent[OF assms(3)] have "r2 = Resolved" by (simp add: rl_burst_def)
  with c r c2 assms(1) show ?thesis
    by (simp add: rateBot_def reaches_limiters_def redis_consume_def Let_def)
qed

lemma perEndpointLimiter_quota:
  assumes "redisReady out" and "\<not> storeFails out"
      and "getLimiterForPath (req_path req) = Some limiter"
  shows "fst (perEndpointLimiter out req e) =
           (if spent (endpoint_opts limiter) (limiters e limiter) (getRateLimitKey req) (now out)
            then Sent (endpoint_exceeded
                   (msBeforeNext (endpoint_opts limiter) (limiters e limiter)
                      (getRateLimitKey req) (now out)))
            else Next)"
proof -
  let ?opt = "endpoint_opts limiter" and ?cs = "limiters e limiter" and ?key = "getRateLimitKey req"
  obtain r cs' where c: "consume ?opt ?key (now out) ?cs = (r, cs')"
    by (cases "consume ?opt ?key (now out) ?cs")
  have p: "0 < points ?opt" by (cases limiter) simp_all
  show ?thesis
  proof (cases "spent ?opt ?cs ?key (now out)")
    case True
    with consume_spent(1)[OF True] c assms show ?thesis
      by (simp add: perEndpointLimiter_def redis_consume_def Let_def)
  next
    case False
    with consume_not_spent[OF False p] c assms show ?thesis
      by (simp add: perEndpointLimiter_def redis_consume_def Let_def)
  qed
qed

text \<open>
  C8. A request that reaches the limiters of \<open>rateBot\<close> is answered with the 429 exactly
  when its key has spent the quota of the main limiter (100 points per 900 s) or, that
  one having room, the quota of the burst limiter (10 points per second); otherwise it
  goes to the next handler. \<open>perEndpointLimiter\<close> does the same with the limiter of the
  path. The 429 is built from the milliseconds the limiter tells the client to wait,
  the time until the window of the key resets (the block, for a limiter that blocks),
  which are positive. Conversely every reply of \<open>rateBot\<close> other than the bot rejection,
  and every reply of \<open>perEndpointLimiter\<close>, is such a quota rejection: the key has
  consumed more points than the limiter allows and its window resets later than now.
  The reply carries the milliseconds rounded up to whole seconds, a positive number, as
  the \<^verbatim>\<open>Retry-After\<close> header and in the body (\<^verbatim>\<open>retryAfter\<close>, \<^verbatim>\<open>retryAfterSeconds\<close>); the
  status 429 is used by no other exit (the bot rejection is 403, a store error goes to
  the next handler).
\<close>

theorem rate_limit_exceeded_reply:
  "(reaches_limiters out req \<longrightarrow>
      fst (rateBot out req s) =
        (if spent rl_main (rateLimiterRedis s) (getKey req) (now out)
         then Sent (too_many (msBeforeNext rl_main (rateLimiterRedis s) (getKey req) (now out)))
         else if spent rl_burst (tokenBucketLimiter s) (getKey req) (now out)
         then Sent (too_many (msBeforeNext rl_burst (tokenBucketLimiter s) (getKey req) (now out)))
         else Next))
   \<and> (redisReady out \<and> \<not> storeFails out \<and> getLimiterForPath (req_path req) = Some limiter \<longrightarrow>
      fst (perEndpointLimiter out req e) =
        (if spent (endpoint_opts limiter) (limiters e limiter) (getRateLimitKey req) (now out)
         then Sent (endpoint_exceeded
                (msBeforeNext (endpoint_opts limiter) (limiters e limiter)
                   (getRateLimitKey req) (now out)))
         else Next))
   \<and> (spent opt cs key t \<longrightarrow> 0 < msBeforeNext opt cs key t)
   \<and> (rateBot out req s = (Sent rep, s') \<and> rep \<noteq> bot_reply \<longrightarrow>
      (\<exists>used resets.
           (rateLimiterRedis s' (getKey req) = Some (used, resets) \<and> points rl_main < used
            \<or> tokenBucketLimiter s' (getKey req) = Some (used, resets) \<and> points rl_burst < used)
           \<and> now out < resets \<and> rep = too_many (resets - now out)))
   \<and> (perEndpointLimiter out req e = (Sent rep', e') \<longrightarrow>
      (\<exists>limiter used resets. getLimiterForPath (req_path req) = Some limiter
          \<and> limiters e' limiter (getRateLimitKey req) = Some (used, resets)
          \<and> points (endpoint_opts limiter) < used \<and> now out < resets
          \<and> rep' = endpoint_exceeded (resets - now out)))
   \<and> (0 < ms \<longrightarrow>
        0 < Math_ceil_seconds ms
      \<and> int (Math_ceil_seconds ms) = \<lceil>real ms / 1000\<rceil>
      \<and> reply_status (too_many ms) = 429
      \<and> reply_headers (too_many ms) = [(''Retry-After'', String_nat (Math_ceil_seconds ms))]
      \<and> reply_json (too_many ms) =
           JObj [(''success'', JBool False),
                 (''message'', JStr ''Too many requests, please try again later.''),
                 (''retryAfter'', JNum (int (Math_ceil_seconds ms)))]
      \<and> reply_status (endpoint_exceeded ms) = 429
      \<and> reply_headers (endpoint_exceeded ms) = [(''Retry-After'', String_nat (Math_ceil_seconds ms))]
      \<and> reply_json (endpoint_exceeded ms) =
           JObj [(''message'', JStr ''Endpoint rate limit exceeded''),
                 (''retryAfterSeconds'', JNum (int (Math_ceil_seconds ms)))]
      \<and> reply_status bot_reply \<noteq> 429)"
proof -
  have forward: "reaches_limiters out req \<longrightarrow>
      fst (rateBot out req s) =
        (if spent rl_main (rateLimiterRedis s) (getKey req) (now out)
         then Sent (too_many (msBeforeNext rl_main (rateLimiterRedis s) (getKey req) (now out)))
         else if spent rl_burst (tokenBucketLimiter s) (getKey req) (now out)
         then Sent (too_many (msBeforeNext rl_burst (tokenBucketLimiter s) (getKey req) (now out)))
         else Next)"
    using rateBot_main_spent[of out req s] rateBot_burst_spent[of out req s]
      rateBot_within_quota[of out req s]
    by simp
  have endpoint: "redisReady out \<and> \<not> storeFails out
        \<and> getLimiterForPath (req_path req) = Some limiter \<longrightarrow>
      fst (perEndpointLimiter out req e) =
        (if spent (endpoint_opts limiter) (limiters e limiter) (getRateLimitKey req) (now out)
         then Sent (endpoint_exceeded
                (msBeforeNext (endpoint_opts limiter) (limiters e limiter)
                   (getRateLimitKey req) (now out)))
         else Next)"
    using perEndpointLimiter_quota[of out req limiter e] by blast
  have positive: "spent opt cs key t \<longrightarrow> 0 < msBeforeNext opt cs key t"
    using consume_spent(2)[of opt cs key t] by blast
  have backward: "rateBot out req s = (Sent rep, s') \<and> rep \<noteq> bot_reply \<longrightarrow>
      (\<exists>used resets.
           (rateLimiterRedis s' (getKey req) = Some (used, resets) \<and> points rl_main < used
            \<or> tokenBucketLimiter s' (getKey req) = Some (used, resets) \<and> points rl_burst < used)
           \<and> now out < resets \<and> rep = too_many (resets - now out))"
    using rateBot_replies by blast
  have backward_endpoint: "perEndpointLimiter out req e = (Sent rep', e') \<longrightarrow>
      (\<exists>limiter used resets. getLimiterForPath (req_path req) = Some limiter
          \<and> limiters e' limiter (getRateLimitKey req) = Some (used, resets)
          \<and> points (endpoint_opts limiter) < used \<and> now out < resets
          \<and> rep' = endpoint_exceeded (resets - now out))"
    using perEndpointLimiter_replies by blast
  have shape: "0 < ms \<longrightarrow>
        0 < Math_ceil_seconds ms
      \<and> int (Math_ceil_seconds ms) = \<lceil>real ms / 1000\<rceil>
      \<and> reply_status (too_many ms) = 429
      \<and> reply_headers (too_many ms) = [(''Retry-After'', String_nat (Math_ceil_seconds ms))]
      \<and> reply_json (too_many ms) =
           JObj [(''success'', JBool False),
                 (''message'', JStr ''Too many requests, please try again later.''),
                 (''retryAfter'', JNum (int (Math_ceil_seconds ms)))]
      \<and> reply_status (endpoint_exceeded ms) = 429
      \<and> reply_headers (endpoint_exceeded ms) = [(''Retry-After'', String_nat (Math_ceil_seconds ms))]
      \<and> reply_json (endpoint_exceeded ms) =
           JObj [(''message'', JStr ''Endpoint rate limit exceeded''),
                 (''retryAfterSeconds'', JNum (int (Math_ceil_seconds ms)))]
      \<and> reply_status bot_reply \<noteq> 429"
    using ceil_seconds_positive[of ms] ceil_seconds_ceiling[of ms]
    by (simp add: too_many_def endpoint_exceeded_def bot_reply_def Let_def)
  from forward endpoint positive backward backward_endpoint shape show ?thesis by (intro conjI)
qed

text \<open>
  The quota on the model of the limiter: of the consumes of one key inside one window,
  the first \<open>points\<close> are resolved and the next one is rejected, with the time left
  until the reset (or the block duration, when the limiter has one).
\<close>

lemma consume_each_append:
  "consume_each opt key (ts @ us) cs =
     (case consume_each opt key ts cs of
        (rs, cs') \<Rightarrow> (case consume_each opt key us cs' of (rs', cs'') \<Rightarrow> (rs @ rs', cs'')))"
  by (induction ts arbitrary: cs) (auto split: prod.splits)

lemma consume_in_window:
  assumes "cs key = Some (n, until)" and "t < until"
  shows "consume opt key t cs =
           (if n + 1 \<le> points opt then (Resolved, cs(key \<mapsto> (n + 1, until)))
            else if 0 < blockDuration opt \<and> n \<le> points opt
            then (RateLimiterRes (blockDuration opt * 1000),
                  cs(key \<mapsto> (n + 1, t + blockDuration opt * 1000)))
            else (RateLimiterRes (until - t), cs(key \<mapsto> (n + 1, until))))"
  using assms by (auto simp: consume_def Let_def)

lemma consume_each_within_quota:
  assumes "cs key = Some (n, until)" and "\<forall>t\<in>set ts. t < until"
      and "n + length ts \<le> points opt"
  shows "consume_each opt key ts cs =
           (replicate (length ts) Resolved, cs(key \<mapsto> (n + length ts, until)))"
  using assms
proof (induction ts arbitrary: cs n)
  case Nil
  then show ?case by (simp add: fun_upd_idem)
next
  case (Cons t ts)
  from Cons.prems have t: "t < until" and n: "n + 1 \<le> points opt" by simp_all
  from consume_in_window[of cs key n until t opt, OF Cons.prems(1) t] n
  have step: "consume opt key t cs = (Resolved, cs(key \<mapsto> (n + 1, until)))" by simp
  have "consume_each opt key ts (cs(key \<mapsto> (n + 1, until)))
          = (replicate (length ts) Resolved,
             (cs(key \<mapsto> (n + 1, until)))(key \<mapsto> (n + 1 + length ts, until)))"
    using Cons.prems by (intro Cons.IH) simp_all
  with step show ?case by (simp add: fun_eq_iff)
qed

lemma window_of_N_points:
  assumes fresh_key: "cs key = None"
      and quota: "0 < points opt" "length ts = points opt - 1"
      and window: "\<forall>t\<in>set ts. t < t0 + duration opt * 1000" "t' < t0 + duration opt * 1000"
  shows "fst (consume_each opt key (t0 # ts @ [t']) cs) =
           replicate (points opt) Resolved
           @ [RateLimiterRes (if 0 < blockDuration opt then blockDuration opt * 1000
                              else t0 + duration opt * 1000 - t')]"
proof -
  let ?until = "t0 + duration opt * 1000"
  let ?cs1 = "cs(key \<mapsto> (1, ?until))"
  have first: "consume opt key t0 cs = (Resolved, ?cs1)"
    using fresh_key quota(1) by (simp add: consume_def Let_def)
  have "consume_each opt key ts ?cs1
          = (replicate (length ts) Resolved, ?cs1(key \<mapsto> (1 + length ts, ?until)))"
    using window(1) quota by (intro consume_each_within_quota) simp_all
  then have middle: "consume_each opt key ts ?cs1
          = (replicate (points opt - 1) Resolved, cs(key \<mapsto> (points opt, ?until)))"
    using quota by simp
  have last: "fst (consume opt key t' (cs(key \<mapsto> (points opt, ?until))))
          = RateLimiterRes (if 0 < blockDuration opt then blockDuration opt * 1000
                              else ?until - t')"
    using consume_in_window[of "cs(key \<mapsto> (points opt, ?until))" key "points opt" ?until t' opt]
      window(2)
    by simp
  obtain r cs' where l: "consume opt key t' (cs(key \<mapsto> (points opt, ?until))) = (r, cs')"
    by (cases "consume opt key t' (cs(key \<mapsto> (points opt, ?until)))")
  from first middle l last quota(1) show ?thesis
    by (simp add: consume_each_append replicate_append_same
          flip: replicate_Suc)
qed

text \<open>
  Eleven requests of one client within half a second: the burst limiter of ten points
  per second lets ten through and rejects the eleventh.
\<close>

lemma eleven_requests:
  "requests_at [0, 50, 100, 150, 200, 250, 300, 350, 400, 450, 500] (browser ''/api/tasks'')
      no_requests_yet
   = [Next, Next, Next, Next, Next, Next, Next, Next, Next, Next, Sent (too_many 500)]"
  using browser_is_no_bot[of "''/api/tasks''"]
  by (simp add: rateBot_def production_def startsWith_def no_requests_yet_def getKey_def
        redis_consume_def consume_def rl_main_def rl_burst_def Let_def)
     (simp add: browser_def)

text \<open>
  The 101st request of a client inside the window of the main limiter is answered 429
  with \<^verbatim>\<open>Retry-After: 895\<close>, the seconds left of the 900; a first request goes through;
  the eleventh request within a second is rejected by the burst limiter; the 51st
  request to \<^verbatim>\<open>/api/users\<close> is blocked for 60 seconds.
\<close>

theorem rate_limit_exceeded_reply_witness:
  "fst (rateBot (production\<lparr>now := 5000\<rparr>) (browser ''/api/tasks'') hundred_consumed)
       = Sent (too_many 895000)
   \<and> reply_status (too_many 895000) = 429
   \<and> reply_headers (too_many 895000) = [(''Retry-After'', ''895'')]
   \<and> reply_json (too_many 895000) =
        JObj [(''success'', JBool False),
              (''message'', JStr ''Too many requests, please try again later.''),
              (''retryAfter'', JNum 895)]
   \<and> fst (rateBot (production\<lparr>now := 5000\<rparr>) (browser ''/api/tasks'') no_requests_yet) = Next
   \<and> requests_at [0, 50, 100, 150, 200, 250, 300, 350, 400, 450, 500] (browser ''/api/tasks'')
        no_requests_yet
       = [Next, Next, Next, Next, Next, Next, Next, Next, Next, Next, Sent (too_many 500)]
   \<and> fst (rateBot (production\<lparr>now := 500\<rparr>) (browser ''/api/tasks'') ten_consumed)
       = Sent (too_many 500)
   \<and> reply_headers (too_many 500) = [(''Retry-After'', ''1'')]
   \<and> fst (perEndpointLimiter (production\<lparr>now := 1000\<rparr>) (browser ''/api/users/42'') fifty_consumed)
       = Sent (endpoint_exceeded 60000)
   \<and> reply_headers (endpoint_exceeded 60000) = [(''Retry-After'', ''60'')]
   \<and> reply_json (endpoint_exceeded 60000) =
        JObj [(''message'', JStr ''Endpoint rate limit exceeded''), (''retryAfterSeconds'', JNum 60)]"
proof -
  let ?req = "browser ''/api/tasks''"
  have c1: "Math_ceil_seconds 500 = 1" "Math_ceil_seconds 60000 = 60"
    "Math_ceil_seconds 895000 = 895"
    by (simp_all add: Math_ceil_seconds_def)
  have c2: "String_nat 1 = ''1''" "String_nat 60 = ''60''" "String_nat 895 = ''895''"
    by (simp_all add: String_nat.simps digit_char_def)
  have pos: "(0::nat) < 500" "(0::nat) < 60000" "(0::nat) < 895000" by simp_all
  note main = rate_limit_exceeded_reply[where out = "production\<lparr>now := 5000\<rparr>" and req = ?req
      and s = hundred_consumed and ms = 895000]
  note none = rate_limit_exceeded_reply[where out = "production\<lparr>now := 5000\<rparr>" and req = ?req
      and s = no_requests_yet]
  note burst = rate_limit_exceeded_reply[where out = "production\<lparr>now := 500\<rparr>" and req = ?req
      and s = ten_consumed and ms = 500]
  note block = rate_limit_exceeded_reply[where out = "production\<lparr>now := 1000\<rparr>"
      and req = "browser ''/api/users/42''" and e = fifty_consumed and limiter = Users
      and ms = 60000]
  have reach: "reaches_limiters (production\<lparr>now := t\<rparr>) ?req" for t
    using browser_is_no_bot[of "''/api/tasks''"]
    by (simp add: reaches_limiters_def production_def startsWith_def) (simp add: browser_def)
  have key: "getKey ?req = ''198.51.100.4''" "getRateLimitKey (browser ''/api/users/42'') = ''198.51.100.4''"
    by (simp_all add: getKey_def getRateLimitKey_def browser_def)
  have 1: "fst (rateBot (production\<lparr>now := 5000\<rparr>) ?req hundred_consumed) = Sent (too_many 895000)"
    using main[THEN conjunct1] reach[of 5000]
    by (simp add: key spent_def msBeforeNext_def hundred_consumed_def rl_main_def)
  have 2: "fst (rateBot (production\<lparr>now := 5000\<rparr>) ?req no_requests_yet) = Next"
    using none[THEN conjunct1] reach[of 5000]
    by (simp add: key spent_def no_requests_yet_def)
  have 3: "fst (rateBot (production\<lparr>now := 500\<rparr>) ?req ten_consumed) = Sent (too_many 500)"
    using burst[THEN conjunct1] reach[of 500]
    by (simp add: key spent_def msBeforeNext_def ten_consumed_def rl_main_def rl_burst_def)
  have 4: "fst (perEndpointLimiter (production\<lparr>now := 1000\<rparr>) (browser ''/api/users/42'')
             fifty_consumed) = Sent (endpoint_exceeded 60000)"
    using block[THEN conjunct2, THEN conjunct1]
    by (simp add: key spent_def msBeforeNext_def fifty_consumed_def production_def
          getLimiterForPath_def endpointRules_def startsWith_def)
       (simp add: browser_def)
  have shape: "0 < m \<Longrightarrow>
        reply_status (too_many m) = 429
      \<and> reply_headers (too_many m) = [(''Retry-After'', String_nat (Math_ceil_seconds m))]
      \<and> reply_json (too_many m) =
           JObj [(''success'', JBool False),
                 (''message'', JStr ''Too many requests, please try again later.''),
                 (''retryAfter'', JNum (int (Math_ceil_seconds m)))]
      \<and> reply_headers (endpoint_exceeded m) = [(''Retry-After'', String_nat (Math_ceil_seconds m))]
      \<and> reply_json (endpoint_exceeded m) =
           JObj [(''message'', JStr ''Endpoint rate limit exceeded''),
                 (''retryAfterSeconds'', JNum (int (Math_ceil_seconds m)))]" for m
    using rate_limit_exceeded_reply[where ms = m and out = "production" and req = ?req
        and s = no_requests_yet and e = no_endpoint_requests_yet and limiter = Users
        and opt = rl_main and cs = Map.empty and key = "[]" and t = 0
        and rep = bot_reply and s' = no_requests_yet and rep' = bot_reply
        and e' = no_endpoint_requests_yet]
    by blast
  from shape[OF pos(3)] have 5: "reply_status (too_many 895000) = 429"
    "reply_headers (too_many 895000) = [(''Retry-After'', ''895'')]"
    "reply_json (too_many 895000) =
        JObj [(''success'', JBool False),
              (''message'', JStr ''Too many requests, please try again later.''),
              (''retryAfter'', JNum 895)]"
    unfolding c1 c2 by simp_all
  from shape[OF pos(1)] have 6: "reply_headers (too_many 500) = [(''Retry-After'', ''1'')]"
    unfolding c1 c2 by simp
  from shape[OF pos(2)] have 7:
    "reply_headers (endpoint_exceeded 60000) = [(''Retry-After'', ''60'')]"
    "reply_json (endpoint_exceeded 60000) =
        JObj [(''message'', JStr ''Endpoint rate limit exceeded''), (''retryAfterSeconds'', JNum 60)]"
    unfolding c1 c2 by simp_all
  from 1 2 3 4 5 6 7 eleven_requests show ?thesis by simp
qed

end
